theory Spec2Isabelle
  imports Complex_Main "HOL-Library.Multiset"
begin

section \<open>Python values used by git\_tool.py\<close>

text \<open>
  Python's \<open>str\<close> is modelled as \<open>string\<close>; a character stands for a code point below
  256.  Exceptions are values of \<open>error\<close>; a computation that may raise returns
  \<open>error + 'a\<close> with \<open>Inl\<close> for the raised exception.
\<close>

datatype error =
    FileNotFoundError
  | OSError
  | UnicodeDecodeError
  | ParserError
  | UnpicklingError
  | StatisticsError
  | AttributeError
  | TypeError
  | ValueError

text \<open>\<open>datetime.date\<close> and the part of \<open>datetime.datetime\<close> the program reads.\<close>

record date =
  year :: int
  month :: int
  day :: int

record datetime =
  dt_date :: date
  dt_seconds :: int
  dt_utcoffset :: int

text \<open>
  The program is dynamically typed: the lines that \<open>run_cmd\<close> returns are \<open>str\<close> until a
  line transform (\<open>parse\<close>) turns them into \<open>datetime\<close>, and \<open>first\<close> returns either a
  list or one of its elements.
\<close>

datatype pyval =
    Str string
  | DateTime datetime
  | PyList "pyval list"

subsection \<open>String methods\<close>

text \<open>\<open>str.isspace\<close> on one character (code points below 256).\<close>

definition is_space :: "char \<Rightarrow> bool" where
  "is_space c = ((of_char c :: nat) \<in> {9, 10, 11, 12, 13, 28, 29, 30, 31, 32, 133, 160})"

text \<open>\<open>s.strip(chars)\<close>, given as the predicate "is one of chars".\<close>

definition strip_chars :: "(char \<Rightarrow> bool) \<Rightarrow> string \<Rightarrow> string" where
  "strip_chars p s = rev (dropWhile p (rev (dropWhile p s)))"

text \<open>\<open>s.strip()\<close>\<close>

definition strip :: "string \<Rightarrow> string" where
  "strip s = strip_chars is_space s"

text \<open>\<open>s.split(sep)\<close> for a one-character separator: never the empty list.\<close>

fun split_on :: "char \<Rightarrow> string \<Rightarrow> string list" where
  "split_on sep [] = [[]]"
| "split_on sep (c # cs) =
     (if c = sep then [] # split_on sep cs
      else (case split_on sep cs of
              [] \<Rightarrow> [[c]]
            | w # ws \<Rightarrow> (c # w) # ws))"

text \<open>\<open>s.split()\<close>: the maximal runs of non-whitespace; \<open>cur\<close> is the run being read, reversed.\<close>

fun split_ws_acc :: "string \<Rightarrow> string \<Rightarrow> string list" where
  "split_ws_acc cur [] = (if cur = [] then [] else [rev cur])"
| "split_ws_acc cur (c # cs) =
     (if is_space c
      then (if cur = [] then split_ws_acc [] cs else rev cur # split_ws_acc [] cs)
      else split_ws_acc (c # cur) cs)"

definition split_ws :: "string \<Rightarrow> string list" where
  "split_ws s = split_ws_acc [] s"

text \<open>\<open>sep.join(xs)\<close> for a one-character separator.\<close>

fun join :: "char \<Rightarrow> string list \<Rightarrow> string" where
  "join sep [] = []"
| "join sep [x] = x"
| "join sep (x # y # ys) = x @ sep # join sep (y # ys)"

text \<open>\<open>sub in s\<close> on strings.\<close>

fun starts_with :: "string \<Rightarrow> string \<Rightarrow> bool" where
  "starts_with [] s = True"
| "starts_with (a # as) [] = False"
| "starts_with (a # as) (c # cs) = (a = c \<and> starts_with as cs)"

fun is_substring :: "string \<Rightarrow> string \<Rightarrow> bool" where
  "is_substring sub [] = (sub = [])"
| "is_substring sub (c # cs) = (starts_with sub (c # cs) \<or> is_substring sub cs)"

text \<open>\<open>s.endswith(suffix)\<close>\<close>

definition ends_with :: "string \<Rightarrow> string \<Rightarrow> bool" where
  "ends_with s suffix = starts_with (rev suffix) (rev s)"

section \<open>Module-level helpers (lines 37--42)\<close>

text \<open>\<open>chomp_quotes = lambda line: line.strip('"')\<close>; only \<open>str\<close> has \<open>strip\<close> with a string argument.\<close>

definition chomp_quotes_str :: "string \<Rightarrow> string" where
  "chomp_quotes_str line = strip_chars (\<lambda>c. c = CHR 0x22) line"

definition chomp_quotes :: "pyval \<Rightarrow> error + pyval" where
  "chomp_quotes line =
     (case line of
        Str s \<Rightarrow> Inr (Str (chomp_quotes_str s))
      | DateTime d \<Rightarrow> Inl AttributeError
      | PyList xs \<Rightarrow> Inl AttributeError)"

text \<open>\<open>first = lambda obj: obj[0] if isinstance(obj, list) and len(obj) > 0 else obj\<close>\<close>

definition first :: "pyval \<Rightarrow> pyval" where
  "first obj = (case obj of PyList (x # xs) \<Rightarrow> x | _ \<Rightarrow> obj)"

section \<open>The outside world\<close>

text \<open>
  The bytes a process writes to its standard output: either the UTF-8 encoding of a text, or
  bytes that \<open>bytes.decode()\<close> rejects.
\<close>

datatype bytes = Utf8 string | Undecodable

definition decode :: "bytes \<Rightarrow> error + string" where
  "decode b = (case b of Utf8 s \<Rightarrow> Inr s | Undecodable \<Rightarrow> Inl UnicodeDecodeError)"

record proc_out =
  returncode :: int
  stdout :: bytes

text \<open>\<open>@dataclass class Commit\<close> (lines 135--141), with the annotated field types.\<close>

record Commit =
  cid :: string
  created :: "datetime option"
  author :: "string option"
  message :: "string option"
  files :: "string list"

definition new_Commit :: "string \<Rightarrow> Commit" where
  "new_Commit i = \<lparr>cid = i, created = None, author = None, message = None, files = []\<rparr>"

text \<open>
  What the program calls and does not define: \<open>popen cwd argv\<close> is
  \<open>Popen(argv, stdout=PIPE, stderr=PIPE)\<close> followed by \<open>communicate()\<close> in working directory
  \<open>cwd\<close> (\<open>Inl\<close> when the process cannot be started); \<open>parse\<close> is \<open>dateutil.parser.parse\<close>;
  \<open>pickle_dumps\<close> and \<open>pickle_loads\<close> are \<open>pickle.dump\<close> and \<open>pickle.load\<close> on the content
  \<open>'b\<close> of a file.  The history commands only read the repository, so \<open>popen\<close> is a function.
\<close>

record 'b library =
  popen :: "string \<Rightarrow> string list \<Rightarrow> error + proc_out"
  parse :: "string \<Rightarrow> error + datetime"
  pickle_dumps :: "Commit list \<Rightarrow> 'b"
  pickle_loads :: "'b \<Rightarrow> error + Commit list"

text \<open>
  The state the program changes: the content of the file at \<open>PICKLE_PATH\<close> (\<open>None\<close> when there
  is no such file; the path is taken to be absolute, as \<open>__file__\<close> is), the working directory,
  and the number of processes spawned so far (a counter kept for the proofs).
\<close>

record 'b world =
  artifact :: "'b option"
  cwd :: string
  spawned :: nat

section \<open>Commands (lines 24--32)\<close>

definition dq :: char where
  "dq = CHR 0x22"

definition CMD_GET_ALL_COMMIT_IDS :: string where
  "CMD_GET_ALL_COMMIT_IDS = ''git log --pretty=format:'' @ [dq] @ ''%h'' @ [dq] @ '' --no-merges''"

definition CMD_GET_COMMIT_FILES :: "Commit \<Rightarrow> string" where
  "CMD_GET_COMMIT_FILES commit = ''git diff-tree --no-commit-id --name-only -r '' @ cid commit"

definition CMD_GET_COMMIT_AUTHOR :: "Commit \<Rightarrow> string" where
  "CMD_GET_COMMIT_AUTHOR commit = ''git show -s --format='' @ [dq] @ ''%ae'' @ [dq] @ '' '' @ cid commit"

definition CMD_GET_COMMIT_DATE :: "Commit \<Rightarrow> string" where
  "CMD_GET_COMMIT_DATE commit = ''git show -s --format='' @ [dq] @ ''%ci'' @ [dq] @ '' '' @ cid commit"

definition CMD_GET_COMMIT_MESSAGE :: "Commit \<Rightarrow> string" where
  "CMD_GET_COMMIT_MESSAGE commit = ''git show -s --format='' @ [dq] @ ''%B'' @ [dq] @ '' '' @ cid commit"

definition REPO_PATH :: string where
  "REPO_PATH = ''/home/ckjackslack/Projects/aoc2023/''"

section \<open>The process runner (lines 116--132)\<close>

text \<open>The first argument of \<open>run_cmd\<close>: a string, or a callable applied to \<open>*args\<close>.\<close>

datatype cmd = Fixed string | Template "Commit \<Rightarrow> string"

text \<open>\<open>preprocess_line\<close>: \<open>None\<close>, a callable, or a list of callables.\<close>

datatype preprocess_line =
    NoLineFn
  | LineFn "pyval \<Rightarrow> error + pyval"
  | LineFns "(pyval \<Rightarrow> error + pyval) list"

text \<open>\<open>list(map(f, xs))\<close> where \<open>f\<close> may raise: the first exception in list order.\<close>

fun map_e :: "('a \<Rightarrow> error + 'b) \<Rightarrow> 'a list \<Rightarrow> error + 'b list" where
  "map_e f [] = Inr []"
| "map_e f (x # xs) =
     (case f x of
        Inl e \<Rightarrow> Inl e
      | Inr y \<Rightarrow> (case map_e f xs of Inl e \<Rightarrow> Inl e | Inr ys \<Rightarrow> Inr (y # ys)))"

text \<open>\<open>for fn in preprocess_line: out = list(map(fn, out))\<close>\<close>

fun map_all :: "(pyval \<Rightarrow> error + pyval) list \<Rightarrow> pyval list \<Rightarrow> error + pyval list" where
  "map_all [] out = Inr out"
| "map_all (fn # fns) out =
     (case map_e fn out of Inl e \<Rightarrow> Inl e | Inr out' \<Rightarrow> map_all fns out')"

definition apply_preprocess_line :: "preprocess_line \<Rightarrow> pyval list \<Rightarrow> error + pyval list" where
  "apply_preprocess_line pl out =
     (case pl of
        NoLineFn \<Rightarrow> Inr out
      | LineFn fn \<Rightarrow> map_e fn out
      | LineFns fns \<Rightarrow> map_all fns out)"

text \<open>\<open>cmd(*args)\<close> if \<open>cmd\<close> is callable, else \<open>cmd\<close>; the templates take one argument.\<close>

definition command_text :: "cmd \<Rightarrow> Commit list \<Rightarrow> error + string" where
  "command_text c args =
     (case c of
        Fixed s \<Rightarrow> Inr s
      | Template f \<Rightarrow> (case args of [a] \<Rightarrow> Inr (f a) | _ \<Rightarrow> Inl TypeError))"

text \<open>
  \<open>run_cmd\<close>.  The exit status of the process and its standard error are read by nothing:
  \<open>returncode\<close> does not occur on the right-hand side.
\<close>

definition run_cmd ::
  "'b library \<Rightarrow> string \<Rightarrow> cmd \<Rightarrow> Commit list \<Rightarrow> preprocess_line \<Rightarrow> (pyval \<Rightarrow> pyval) option
     \<Rightarrow> error + pyval" where
  "run_cmd lib dir c args pl pw =
     (case command_text c args of
        Inl e \<Rightarrow> Inl e
      | Inr text \<Rightarrow>
          (case popen lib dir (split_ws text) of
             Inl e \<Rightarrow> Inl e
           | Inr p \<Rightarrow>
               (case decode (stdout p) of
                  Inl e \<Rightarrow> Inl e
                | Inr s \<Rightarrow>
                    (case apply_preprocess_line pl (map Str (split_on CHR 0x0A (strip s))) of
                       Inl e \<Rightarrow> Inl e
                     | Inr out \<Rightarrow>
                         (case pw of
                            Some whole \<Rightarrow> Inr (whole (PyList out))
                          | None \<Rightarrow> Inr (PyList out))))))"

text \<open>\<open>parse\<close> as a line transform.\<close>

definition parse_line :: "'b library \<Rightarrow> pyval \<Rightarrow> error + pyval" where
  "parse_line lib v =
     (case v of
        Str s \<Rightarrow> (case parse lib s of Inl e \<Rightarrow> Inl e | Inr d \<Rightarrow> Inr (DateTime d))
      | DateTime d \<Rightarrow> Inl TypeError
      | PyList xs \<Rightarrow> Inl TypeError)"

section \<open>The worker pool\<close>

text \<open>
  \<open>ProcessingPool.map(f, xs)\<close> hands task \<open>i\<close> (the call \<open>f(xs[i])\<close>) to some worker; the tasks
  finish in an order the program does not control.  \<open>completion_order picks ts\<close> is such an
  order: at every step the task that finishes next is chosen among the unfinished ones by the
  next number of \<open>picks\<close>.  Every list \<open>picks\<close> gives an order in which each task finishes once.
\<close>

function completion_order :: "nat list \<Rightarrow> 'a list \<Rightarrow> 'a list" where
  "completion_order picks ts =
     (if ts = [] then []
      else let k = (case picks of [] \<Rightarrow> 0 | p # ps \<Rightarrow> p mod length ts)
           in ts ! k # completion_order (tl picks) (take k ts @ drop (Suc k) ts))"
  by pat_completeness auto
termination
proof (relation "measure (\<lambda>(picks, ts). length ts)")
  show "wf (measure (\<lambda>(picks, ts). length ts))"
    by simp
next
  fix picks :: "nat list" and ts :: "'a list" and k
  assume ne: "ts \<noteq> []" and k: "k = (case picks of [] \<Rightarrow> 0 | p # ps \<Rightarrow> p mod length ts)"
  have "k < length ts"
    using ne k by (cases picks) simp_all
  then show "((tl picks, take k ts @ drop (Suc k) ts), (picks, ts))
               \<in> measure (\<lambda>(picks, ts). length ts)"
    by simp
qed

declare completion_order.simps [simp del]

text \<open>The exception of the first task that is seen to have failed, if any.\<close>

fun first_failure :: "(nat \<times> (error + 'r)) list \<Rightarrow> error option" where
  "first_failure [] = None"
| "first_failure ((i, r) # es) = (case r of Inl e \<Rightarrow> Some e | Inr v \<Rightarrow> first_failure es)"

text \<open>The values of the tasks that returned, each with its submission index.\<close>

fun returned :: "(nat \<times> (error + 'r)) list \<Rightarrow> (nat \<times> 'r) list" where
  "returned [] = []"
| "returned ((i, r) # es) = (case r of Inl e \<Rightarrow> returned es | Inr v \<Rightarrow> (i, v) # returned es)"

text \<open>
  \<open>pool.map\<close>: every task runs; the results arrive in completion order, each tagged with its
  submission index, and the list handed back is ordered by that index.  When a task raised,
  \<open>pool.map\<close> raises the first exception that arrived.
\<close>

definition pool_map :: "nat list \<Rightarrow> ('a \<Rightarrow> error + 'r) \<Rightarrow> 'a list \<Rightarrow> error + 'r list" where
  "pool_map picks f xs =
     (let arrived = completion_order picks (zip [0..<length xs] (map f xs))
      in case first_failure arrived of
           Some e \<Rightarrow> Inl e
         | None \<Rightarrow> Inr (map snd (sort_key fst (returned arrived))))"

text \<open>The same map, run by one worker in submission order.\<close>

definition sequential_map :: "('a \<Rightarrow> error + 'r) \<Rightarrow> 'a list \<Rightarrow> error + 'r list" where
  "sequential_map f xs = map_e f xs"

section \<open>Building the commit store (lines 152--203)\<close>

text \<open>
  The values \<open>run_cmd\<close> returns are stored in fields whose annotated types the record keeps:
  \<open>as_str\<close>, \<open>as_datetime\<close> and \<open>as_str_list\<close> read a value at such a type (Python
  stores any value; \<open>build_fields\<close> below shows that no other type arises).  \<open>as_lines\<close> is
  the iteration over a value that yields strings, as \<open>for\<close> and \<open>str.join\<close> do it.
\<close>

definition as_str :: "pyval \<Rightarrow> error + string" where
  "as_str v = (case v of Str s \<Rightarrow> Inr s | DateTime d \<Rightarrow> Inl TypeError | PyList xs \<Rightarrow> Inl TypeError)"

definition as_datetime :: "pyval \<Rightarrow> error + datetime" where
  "as_datetime v = (case v of DateTime d \<Rightarrow> Inr d | Str s \<Rightarrow> Inl TypeError | PyList xs \<Rightarrow> Inl TypeError)"

definition as_lines :: "pyval \<Rightarrow> error + string list" where
  "as_lines v =
     (case v of
        PyList xs \<Rightarrow> map_e as_str xs
      | Str s \<Rightarrow> Inr (map (\<lambda>c. [c]) s)
      | DateTime d \<Rightarrow> Inl TypeError)"

text \<open>The four loops \<open>for value, commit in zip(result, commits): commit.field = ...\<close>\<close>

definition as_str_list :: "pyval \<Rightarrow> error + string list" where
  "as_str_list v =
     (case v of
        PyList xs \<Rightarrow> map_e as_str xs
      | Str s \<Rightarrow> Inl TypeError
      | DateTime d \<Rightarrow> Inl TypeError)"

definition set_files :: "pyval \<times> Commit \<Rightarrow> error + Commit" where
  "set_files rc =
     (case as_str_list (fst rc) of Inl e \<Rightarrow> Inl e | Inr fs \<Rightarrow> Inr ((snd rc)\<lparr>files := fs\<rparr>))"

definition set_author :: "pyval \<times> Commit \<Rightarrow> error + Commit" where
  "set_author rc =
     (case as_str (fst rc) of Inl e \<Rightarrow> Inl e | Inr a \<Rightarrow> Inr ((snd rc)\<lparr>author := Some a\<rparr>))"

definition set_created :: "pyval \<times> Commit \<Rightarrow> error + Commit" where
  "set_created rc =
     (case as_datetime (fst rc) of Inl e \<Rightarrow> Inl e | Inr d \<Rightarrow> Inr ((snd rc)\<lparr>created := Some d\<rparr>))"

text \<open>\<open>commit.message = "\n".join(message).strip()\<close>\<close>

definition set_message :: "pyval \<times> Commit \<Rightarrow> error + Commit" where
  "set_message rc =
     (case as_lines (fst rc) of
        Inl e \<Rightarrow> Inl e
      | Inr ls \<Rightarrow> Inr ((snd rc)\<lparr>message := Some (strip (join CHR 0x0A ls))\<rparr>))"

text \<open>The callables handed to \<open>pool.map\<close>, one per phase.\<close>

definition files_task :: "'b library \<Rightarrow> string \<Rightarrow> Commit \<Rightarrow> error + pyval" where
  "files_task lib dir c = run_cmd lib dir (Template CMD_GET_COMMIT_FILES) [c] NoLineFn None"

definition author_task :: "'b library \<Rightarrow> string \<Rightarrow> Commit \<Rightarrow> error + pyval" where
  "author_task lib dir c =
     run_cmd lib dir (Template CMD_GET_COMMIT_AUTHOR) [c] (LineFn chomp_quotes) (Some first)"

definition date_task :: "'b library \<Rightarrow> string \<Rightarrow> Commit \<Rightarrow> error + pyval" where
  "date_task lib dir c =
     run_cmd lib dir (Template CMD_GET_COMMIT_DATE) [c]
       (LineFns [chomp_quotes, parse_line lib]) (Some first)"

definition message_task :: "'b library \<Rightarrow> string \<Rightarrow> Commit \<Rightarrow> error + pyval" where
  "message_task lib dir c =
     run_cmd lib dir (Template CMD_GET_COMMIT_MESSAGE) [c] (LineFn chomp_quotes) None"

text \<open>
  One fan-out phase: \<open>pool.map\<close> of the task over the commits, then the loop over
  \<open>zip(result, commits)\<close>.  \<open>mapper\<close> is the map used: \<open>pool_map picks\<close> in the program.
\<close>

definition phase ::
  "((Commit \<Rightarrow> error + pyval) \<Rightarrow> Commit list \<Rightarrow> error + pyval list)
     \<Rightarrow> (Commit \<Rightarrow> error + pyval) \<Rightarrow> (pyval \<times> Commit \<Rightarrow> error + Commit)
     \<Rightarrow> Commit list \<Rightarrow> error + Commit list" where
  "phase mapper task setter commits =
     (case mapper task commits of
        Inl e \<Rightarrow> Inl e
      | Inr result \<Rightarrow> map_e setter (zip result commits))"

text \<open>Lines 161--166: one \<open>Commit\<close> per line of the enumeration, with the id only.\<close>

definition enumerate_commits :: "'b library \<Rightarrow> string \<Rightarrow> error + Commit list" where
  "enumerate_commits lib dir =
     (case run_cmd lib dir (Fixed CMD_GET_ALL_COMMIT_IDS) [] (LineFn chomp_quotes) None of
        Inl e \<Rightarrow> Inl e
      | Inr v \<Rightarrow> (case as_lines v of Inl e \<Rightarrow> Inl e | Inr ids \<Rightarrow> Inr (map new_Commit ids)))"

definition spawn :: "nat \<Rightarrow> 'b world \<Rightarrow> 'b world" where
  "spawn n w = w\<lparr>spawned := spawned w + n\<rparr>"

text \<open>\<open>os.path.isfile(PICKLE_PATH)\<close> and \<open>os.remove(PICKLE_PATH)\<close>\<close>

definition isfile :: "'b world \<Rightarrow> bool" where
  "isfile w = (artifact w \<noteq> None)"

definition os_remove :: "'b world \<Rightarrow> error + 'b world" where
  "os_remove w = (if isfile w then Inr (w\<lparr>artifact := None\<rparr>) else Inl FileNotFoundError)"

text \<open>Lines 157--158 and 200--201: \<open>pickle.load\<close> from, and \<open>pickle.dump\<close> to, the file.\<close>

definition load_commits :: "'b library \<Rightarrow> 'b world \<Rightarrow> error + Commit list" where
  "load_commits lib w =
     (case artifact w of None \<Rightarrow> Inl FileNotFoundError | Some content \<Rightarrow> pickle_loads lib content)"

definition dump_commits :: "'b library \<Rightarrow> Commit list \<Rightarrow> 'b world \<Rightarrow> 'b world" where
  "dump_commits lib commits w = w\<lparr>artifact := Some (pickle_dumps lib commits)\<rparr>"

text \<open>
  Lines 161--201, the body of \<open>with inside_custom_directory()\<close>.  \<open>picks i\<close> decides the
  completion order of the workers in phase \<open>i\<close>.  Every call of \<open>run_cmd\<close> spawns one process,
  and a pool runs all its tasks before \<open>pool.map\<close> returns or raises.
\<close>

definition ingest ::
  "'b library \<Rightarrow> (nat \<Rightarrow> nat list) \<Rightarrow> 'b world \<Rightarrow> (error + Commit list) \<times> 'b world" where
  "ingest lib picks w =
     (case enumerate_commits lib (cwd w) of
        Inl e \<Rightarrow> (Inl e, spawn 1 w)
      | Inr c0 \<Rightarrow>
     (case phase (pool_map (picks 0)) (files_task lib (cwd w)) set_files c0 of
        Inl e \<Rightarrow> (Inl e, spawn (1 + length c0) w)
      | Inr c1 \<Rightarrow>
     (case phase (pool_map (picks 1)) (author_task lib (cwd w)) set_author c1 of
        Inl e \<Rightarrow> (Inl e, spawn (1 + 2 * length c0) w)
      | Inr c2 \<Rightarrow>
     (case phase (pool_map (picks 2)) (date_task lib (cwd w)) set_created c2 of
        Inl e \<Rightarrow> (Inl e, spawn (1 + 3 * length c0) w)
      | Inr c3 \<Rightarrow>
     (case phase (pool_map (picks 3)) (message_task lib (cwd w)) set_message c3 of
        Inl e \<Rightarrow> (Inl e, spawn (1 + 4 * length c0) w)
      | Inr c4 \<Rightarrow>
          (Inr c4, dump_commits lib c4 (spawn (1 + 4 * length c0) w)))))))"

text \<open>
  \<open>get_or_create_commits(force)\<close>.  \<open>os.remove\<close> raises \<open>FileNotFoundError\<close> when there is no
  file.  \<open>inside_custom_directory\<close> changes to the repository and changes back after the body;
  it has no \<open>finally\<close>, so an exception in the body leaves the working directory changed.
\<close>

definition get_or_create_commits ::
  "'b library \<Rightarrow> (nat \<Rightarrow> nat list) \<Rightarrow> bool \<Rightarrow> 'b world \<Rightarrow> (error + Commit list) \<times> 'b world" where
  "get_or_create_commits lib picks force w =
     (case (if force then os_remove w else Inr w) of
        Inl e \<Rightarrow> (Inl e, w)
      | Inr w1 \<Rightarrow>
          if isfile w1 then (load_commits lib w1, w1)
          else
            (case ingest lib picks (w1\<lparr>cwd := REPO_PATH\<rparr>) of
               (Inl e, w2) \<Rightarrow> (Inl e, w2)
             | (Inr commits, w2) \<Rightarrow> (Inr commits, w2\<lparr>cwd := cwd w1\<rparr>)))"

section \<open>Dates\<close>

text \<open>
  \<open>datetime.date\<close> as the standard library computes it: the proleptic Gregorian ordinal of a
  date, and \<open>isocalendar()[1]\<close>, the ISO week number.
\<close>

definition is_leap :: "int \<Rightarrow> bool" where
  "is_leap y = (y mod 4 = 0 \<and> (y mod 100 \<noteq> 0 \<or> y mod 400 = 0))"

definition days_before_year :: "int \<Rightarrow> int" where
  "days_before_year y = (y - 1) * 365 + (y - 1) div 4 - (y - 1) div 100 + (y - 1) div 400"

definition days_in_month :: "int \<Rightarrow> int \<Rightarrow> int" where
  "days_in_month y m =
     (if m = 2 then (if is_leap y then 29 else 28)
      else if m = 4 \<or> m = 6 \<or> m = 9 \<or> m = 11 then 30 else 31)"

definition days_before_month :: "int \<Rightarrow> int \<Rightarrow> int" where
  "days_before_month y m = (\<Sum>k \<leftarrow> [1..<nat m]. days_in_month y (int k))"

definition ymd2ord :: "int \<Rightarrow> int \<Rightarrow> int \<Rightarrow> int" where
  "ymd2ord y m d = days_before_year y + days_before_month y m + d"

definition isoweek1monday :: "int \<Rightarrow> int" where
  "isoweek1monday y =
     (let firstday = ymd2ord y 1 1;
          firstweekday = (firstday + 6) mod 7;
          week1monday = firstday - firstweekday
      in if firstweekday > 3 then week1monday + 7 else week1monday)"

definition iso_week :: "date \<Rightarrow> int" where
  "iso_week d =
     (let today = ymd2ord (year d) (month d) (day d);
          week = (today - isoweek1monday (year d)) div 7
      in if week < 0 then (today - isoweek1monday (year d - 1)) div 7 + 1
         else if week \<ge> 52 \<and> today \<ge> isoweek1monday (year d + 1) then 1
         else week + 1)"

definition date_le :: "date \<Rightarrow> date \<Rightarrow> bool" where
  "date_le a b =
     (year a < year b \<or> (year a = year b \<and>
        (month a < month b \<or> (month a = month b \<and> day a \<le> day b))))"

definition date_lt :: "date \<Rightarrow> date \<Rightarrow> bool" where
  "date_lt a b = (date_le a b \<and> \<not> date_le b a)"

definition first_of_january :: "int \<Rightarrow> date" where
  "first_of_january y = \<lparr>year = y, month = 1, day = 1\<rparr>"

section \<open>Queries (lines 39--113 and 218)\<close>

text \<open>\<open>get_week_number(c.created.date())\<close>; a commit without \<open>created\<close> has no \<open>date()\<close>.\<close>

definition get_week_number :: "Commit \<Rightarrow> error + int" where
  "get_week_number c =
     (case created c of None \<Rightarrow> Inl AttributeError | Some dt \<Rightarrow> Inr (iso_week (dt_date dt)))"

text \<open>
  \<open>whole_year = lambda year: lambda c: date(year, 1, 1) <= c.created.date() < date(year + 1, 1, 1)\<close>.
  \<open>date(y, 1, 1)\<close> raises \<open>ValueError\<close> outside the years 1 to 9999, and the chained comparison
  evaluates its right end only when the left comparison holds.
\<close>

definition whole_year :: "int \<Rightarrow> Commit \<Rightarrow> error + bool" where
  "whole_year y c =
     (if y < 1 \<or> y > 9999 then Inl ValueError
      else case created c of
             None \<Rightarrow> Inl AttributeError
           | Some dt \<Rightarrow>
               if \<not> date_le (first_of_january y) (dt_date dt) then Inr False
               else if y + 1 > 9999 then Inl ValueError
               else Inr (date_lt (dt_date dt) (first_of_january (y + 1))))"

text \<open>\<open>only_authors = lambda authors: lambda c: any(author == c.author for author in authors)\<close>\<close>

definition only_authors :: "string list \<Rightarrow> Commit \<Rightarrow> error + bool" where
  "only_authors authors c = Inr (list_ex (\<lambda>a. Some a = author c) authors)"

text \<open>
  \<open>iterate_over(commits, *args)\<close>, read to its end: the commits that pass every filter, in
  order.  The filters are nested lazily, so a commit is tested by the filters in turn, and no
  further once one rejects it.
\<close>

fun passes :: "('c \<Rightarrow> error + bool) list \<Rightarrow> 'c \<Rightarrow> error + bool" where
  "passes [] c = Inr True"
| "passes (fn # fns) c =
     (case fn c of Inl e \<Rightarrow> Inl e | Inr b \<Rightarrow> if b then passes fns c else Inr False)"

fun iterate_over :: "'c list \<Rightarrow> ('c \<Rightarrow> error + bool) list \<Rightarrow> error + 'c list" where
  "iterate_over [] fns = Inr []"
| "iterate_over (c # cs) fns =
     (case passes fns c of
        Inl e \<Rightarrow> Inl e
      | Inr b \<Rightarrow>
          (case iterate_over cs fns of
             Inl e \<Rightarrow> Inl e
           | Inr rest \<Rightarrow> Inr (if b then c # rest else rest)))"

text \<open>
  \<open>get_authors\<close>: the distinct authors that contain \<open>substring\<close>.  Python iterates a set in an
  order of its own; the list here is in order of first occurrence, and \<open>only_authors\<close> does not
  depend on the order.  \<open>substring in None\<close> raises \<open>TypeError\<close>.
\<close>

definition get_authors :: "Commit list \<Rightarrow> string \<Rightarrow> error + string list" where
  "get_authors commits substring =
     (if None \<in> set (map author commits) then Inl TypeError
      else Inr (filter (is_substring substring) (remdups (List.map_filter author commits))))"

text \<open>
  \<open>group_by(commits, fn=key)\<close>: a dictionary in insertion order, kept as an association list;
  a commit is appended to the group of its key.
\<close>

fun add_to_group :: "'k \<Rightarrow> 'c \<Rightarrow> ('k \<times> 'c list) list \<Rightarrow> ('k \<times> 'c list) list" where
  "add_to_group k c [] = [(k, [c])]"
| "add_to_group k c ((k', g) # dd) =
     (if k = k' then (k', g @ [c]) # dd else (k', g) # add_to_group k c dd)"

fun group_by_acc ::
  "('c \<Rightarrow> error + 'k) \<Rightarrow> 'c list \<Rightarrow> ('k \<times> 'c list) list \<Rightarrow> error + ('k \<times> 'c list) list" where
  "group_by_acc get_key [] dd = Inr dd"
| "group_by_acc get_key (c # cs) dd =
     (case get_key c of
        Inl e \<Rightarrow> Inl e
      | Inr k \<Rightarrow> group_by_acc get_key cs (add_to_group k c dd))"

definition group_by :: "('c \<Rightarrow> error + 'k) \<Rightarrow> 'c list \<Rightarrow> error + ('k \<times> 'c list) list" where
  "group_by get_key commits = group_by_acc get_key commits []"

text \<open>\<open>do_count(grouped, fn)\<close>: \<open>counter.update({fn(key): len(commits)})\<close> adds to the count.\<close>

fun counter_update :: "'k \<Rightarrow> int \<Rightarrow> ('k \<times> int) list \<Rightarrow> ('k \<times> int) list" where
  "counter_update k n [] = [(k, n)]"
| "counter_update k n ((k', m) # counter) =
     (if k = k' then (k', m + n) # counter else (k', m) # counter_update k n counter)"

fun do_count_acc :: "('k \<Rightarrow> 'j) \<Rightarrow> ('k \<times> 'c list) list \<Rightarrow> ('j \<times> int) list \<Rightarrow> ('j \<times> int) list" where
  "do_count_acc fn [] counter = counter"
| "do_count_acc fn ((k, g) # grouped) counter =
     do_count_acc fn grouped (counter_update (fn k) (int (length g)) counter)"

definition do_count :: "('k \<Rightarrow> 'j) \<Rightarrow> ('k \<times> 'c list) list \<Rightarrow> ('j \<times> int) list" where
  "do_count fn grouped = do_count_acc fn grouped []"

text \<open>
  \<open>statistics.mean\<close> of integers: the exact quotient, \<open>StatisticsError\<close> on no data.  \<open>int(x)\<close>
  truncates towards zero.  (Python hands a quotient that is not whole to \<open>int\<close> as a float;
  for fewer than \<open>2 ^ 46\<close> commits in at most 53 weeks the rounding does not reach the next
  integer and the truncation is that of the exact quotient.)
\<close>

definition mean :: "int list \<Rightarrow> error + rat" where
  "mean xs = (if xs = [] then Inl StatisticsError else Inr (of_int (sum_list xs) / of_int (int (length xs))))"

definition py_int :: "rat \<Rightarrow> int" where
  "py_int q = (if q < 0 then \<lceil>q\<rceil> else \<lfloor>q\<rfloor>)"

text \<open>
  \<open>get_average_count_by_author_in_year\<close> (lines 94--113); the result is the number it prints.
\<close>

definition get_average_count_by_author_in_year :: "Commit list \<Rightarrow> string \<Rightarrow> int \<Rightarrow> error + int" where
  "get_average_count_by_author_in_year commits substring y =
     (case get_authors commits substring of
        Inl e \<Rightarrow> Inl e
      | Inr authors \<Rightarrow>
     (case iterate_over commits [whole_year y, only_authors authors] of
        Inl e \<Rightarrow> Inl e
      | Inr filtered_commits \<Rightarrow>
     (case group_by get_week_number filtered_commits of
        Inl e \<Rightarrow> Inl e
      | Inr by_week_number \<Rightarrow>
     (case mean (map snd (do_count (\<lambda>e. e) by_week_number)) of
        Inl e \<Rightarrow> Inl e
      | Inr m \<Rightarrow> Inr (py_int m)))))"

text \<open>\<open>os.path.basename\<close> and the filter \<open>edited_specific_extension\<close> of \<open>main\<close> (line 218).\<close>

definition basename :: "string \<Rightarrow> string" where
  "basename path = rev (takeWhile (\<lambda>c. c \<noteq> CHR ''/'') (rev path))"

definition edited_specific_extension :: "string \<Rightarrow> Commit \<Rightarrow> error + bool" where
  "edited_specific_extension ext c =
     Inr (list_ex (\<lambda>file. ends_with (basename file) (''.'' @ ext)) (files c))"

section \<open>The persisted artifact\<close>

text \<open>
  Modelled from the spec: the format of the persisted artifact.  The program writes and reads
  it with \<open>pickle\<close>, which is not part of the source; the spec asks for "a faithful,
  versionless, whole-structure serialization" of "the entire Commit Store (list of Commit
  records with all five fields)".  \<open>serialize\<close> writes the number of commits and then, for each
  commit in order, its five fields; \<open>deserialize\<close> reads that back and rejects anything else.
\<close>

datatype token = TInt int | TStr string | TNone

definition write_created :: "datetime option \<Rightarrow> token list" where
  "write_created x =
     (case x of
        None \<Rightarrow> [TNone]
      | Some dt \<Rightarrow>
          [TInt (year (dt_date dt)), TInt (month (dt_date dt)), TInt (day (dt_date dt)),
           TInt (dt_seconds dt), TInt (dt_utcoffset dt)])"

definition write_opt_str :: "string option \<Rightarrow> token list" where
  "write_opt_str x = (case x of None \<Rightarrow> [TNone] | Some s \<Rightarrow> [TStr s])"

definition write_commit :: "Commit \<Rightarrow> token list" where
  "write_commit c =
     TStr (cid c) # write_created (created c) @ write_opt_str (author c) @ write_opt_str (message c)
       @ TInt (int (length (files c))) # map TStr (files c)"

definition serialize :: "Commit list \<Rightarrow> token list" where
  "serialize store = TInt (int (length store)) # concat (map write_commit store)"

fun read_created :: "token list \<Rightarrow> (datetime option \<times> token list) option" where
  "read_created (TNone # ts) = Some (None, ts)"
| "read_created (TInt y # TInt m # TInt d # TInt s # TInt off # ts) =
     Some (Some \<lparr>dt_date = \<lparr>year = y, month = m, day = d\<rparr>, dt_seconds = s, dt_utcoffset = off\<rparr>, ts)"
| "read_created ts = None"

fun read_opt_str :: "token list \<Rightarrow> (string option \<times> token list) option" where
  "read_opt_str (TNone # ts) = Some (None, ts)"
| "read_opt_str (TStr s # ts) = Some (Some s, ts)"
| "read_opt_str ts = None"

fun read_strs :: "nat \<Rightarrow> token list \<Rightarrow> (string list \<times> token list) option" where
  "read_strs 0 ts = Some ([], ts)"
| "read_strs (Suc n) (TStr s # ts) =
     (case read_strs n ts of None \<Rightarrow> None | Some (ss, rest) \<Rightarrow> Some (s # ss, rest))"
| "read_strs (Suc n) ts = None"

fun read_files :: "token list \<Rightarrow> (string list \<times> token list) option" where
  "read_files (TInt n # ts) = (if n < 0 then None else read_strs (nat n) ts)"
| "read_files ts = None"

fun read_commit :: "token list \<Rightarrow> (Commit \<times> token list) option" where
  "read_commit (TStr i # ts) =
     (case read_created ts of
        None \<Rightarrow> None
      | Some (cr, ts1) \<Rightarrow>
     (case read_opt_str ts1 of
        None \<Rightarrow> None
      | Some (au, ts2) \<Rightarrow>
     (case read_opt_str ts2 of
        None \<Rightarrow> None
      | Some (msg, ts3) \<Rightarrow>
     (case read_files ts3 of
        None \<Rightarrow> None
      | Some (fs, ts4) \<Rightarrow>
          Some (\<lparr>cid = i, created = cr, author = au, message = msg, files = fs\<rparr>, ts4)))))"
| "read_commit ts = None"

fun read_commits :: "nat \<Rightarrow> token list \<Rightarrow> (Commit list \<times> token list) option" where
  "read_commits 0 ts = Some ([], ts)"
| "read_commits (Suc n) ts =
     (case read_commit ts of
        None \<Rightarrow> None
      | Some (c, ts1) \<Rightarrow>
          (case read_commits n ts1 of None \<Rightarrow> None | Some (cs, rest) \<Rightarrow> Some (c # cs, rest)))"

fun deserialize :: "token list \<Rightarrow> error + Commit list" where
  "deserialize (TInt n # ts) =
     (if n < 0 then Inl UnpicklingError
      else case read_commits (nat n) ts of
             Some (cs, []) \<Rightarrow> Inr cs
           | _ \<Rightarrow> Inl UnpicklingError)"
| "deserialize ts = Inl UnpicklingError"

text \<open>A library that persists the store in this format.\<close>

definition with_artifact_format :: "'b library \<Rightarrow> token list library" where
  "with_artifact_format lib =
     \<lparr>popen = popen lib, parse = parse lib, pickle_dumps = serialize, pickle_loads = deserialize\<rparr>"

section \<open>A small history and a small store\<close>

text \<open>
  A repository of two commits, \<open>a1\<close> and \<open>b2\<close>, as the five history commands print it.  Commit
  \<open>b2\<close> changes no file, and its message is quoted.  \<open>status\<close> is the exit status of every
  command.
\<close>

definition nl :: char where
  "nl = CHR 0x0A"

definition example_output :: "string list \<Rightarrow> string" where
  "example_output argv =
     (if ''log'' \<in> set argv then [dq] @ ''a1'' @ [dq, nl, dq] @ ''b2'' @ [dq, nl]
      else if ''diff-tree'' \<in> set argv then
        (if ''a1'' \<in> set argv then ''src/x.py'' @ [nl] @ ''README.md'' @ [nl] else [])
      else if ''--format='' @ [dq] @ ''%ae'' @ [dq] \<in> set argv then
        (if ''a1'' \<in> set argv then [dq] @ ''alice@example.org'' @ [dq, nl]
         else [dq] @ ''bob@example.org'' @ [dq, nl])
      else if ''--format='' @ [dq] @ ''%ci'' @ [dq] \<in> set argv then
        (if ''a1'' \<in> set argv then [dq] @ ''2024-01-02 10:00:00 +0100'' @ [dq, nl]
         else [dq] @ ''2023-12-30 09:30:00 +0000'' @ [dq, nl])
      else
        (if ''a1'' \<in> set argv then [dq] @ ''Fix parser'' @ [nl, nl] @ ''details'' @ [nl, dq, nl]
         else [dq, dq] @ ''init'' @ [dq, nl, dq, nl]))"

definition example_popen :: "int \<Rightarrow> string \<Rightarrow> string list \<Rightarrow> error + proc_out" where
  "example_popen status dir argv = Inr \<lparr>returncode = status, stdout = Utf8 (example_output argv)\<rparr>"

definition example_parse :: "string \<Rightarrow> error + datetime" where
  "example_parse s =
     (if s = ''2024-01-02 10:00:00 +0100''
      then Inr \<lparr>dt_date = \<lparr>year = 2024, month = 1, day = 2\<rparr>, dt_seconds = 36000, dt_utcoffset = 3600\<rparr>
      else if s = ''2023-12-30 09:30:00 +0000''
      then Inr \<lparr>dt_date = \<lparr>year = 2023, month = 12, day = 30\<rparr>, dt_seconds = 34200, dt_utcoffset = 0\<rparr>
      else Inl ParserError)"

definition example_library :: "int \<Rightarrow> token list library" where
  "example_library status =
     \<lparr>popen = example_popen status, parse = example_parse,
      pickle_dumps = serialize, pickle_loads = deserialize\<rparr>"

definition example_world :: "token list world" where
  "example_world = \<lparr>artifact = None, cwd = ''/tmp'', spawned = 0\<rparr>"

definition example_store :: "Commit list" where
  "example_store =
     [\<lparr>cid = ''a1'',
       created = Some \<lparr>dt_date = \<lparr>year = 2024, month = 1, day = 2\<rparr>, dt_seconds = 36000, dt_utcoffset = 3600\<rparr>,
       author = Some ''alice@example.org'',
       message = Some (''Fix parser'' @ [nl, nl] @ ''details''),
       files = [''src/x.py'', ''README.md'']\<rparr>,
      \<lparr>cid = ''b2'',
       created = Some \<lparr>dt_date = \<lparr>year = 2023, month = 12, day = 30\<rparr>, dt_seconds = 34200, dt_utcoffset = 0\<rparr>,
       author = Some ''bob@example.org'',
       message = Some ''init'',
       files = [[]]\<rparr>]"

text \<open>A commit of the given author on the given day, for the query fixtures.\<close>

definition commit_on :: "string \<Rightarrow> string \<Rightarrow> int \<Rightarrow> int \<Rightarrow> int \<Rightarrow> Commit" where
  "commit_on i a y m d =
     \<lparr>cid = i,
      created = Some \<lparr>dt_date = \<lparr>year = y, month = m, day = d\<rparr>, dt_seconds = 0, dt_utcoffset = 0\<rparr>,
      author = Some a, message = Some [], files = []\<rparr>"

text \<open>
  Ten commits: five of alice in ISO week 1 of 2024, three of alice in week 2, one of alice in
  2023 and one of bob in 2024.
\<close>

definition fixture_commits :: "Commit list" where
  "fixture_commits =
     [commit_on ''c0'' ''alice'' 2024 1 10, commit_on ''c1'' ''alice'' 2024 1 9,
      commit_on ''c2'' ''alice'' 2024 1 8, commit_on ''c3'' ''bob'' 2024 1 4,
      commit_on ''c4'' ''alice'' 2024 1 5, commit_on ''c5'' ''alice'' 2024 1 4,
      commit_on ''c6'' ''alice'' 2024 1 3, commit_on ''c7'' ''alice'' 2024 1 2,
      commit_on ''c8'' ''alice'' 2024 1 1, commit_on ''c9'' ''alice'' 2023 6 15]"

text \<open>Three commits of alice in 2024: two in ISO week 1 and one in week 2.\<close>

definition uneven_commits :: "Commit list" where
  "uneven_commits =
     [commit_on ''c0'' ''alice'' 2024 1 8, commit_on ''c1'' ''alice'' 2024 1 3,
      commit_on ''c2'' ''alice'' 2024 1 2]"

text \<open>One commit of bob in 2022: nothing for alice in 2023.\<close>

definition other_commits :: "Commit list" where
  "other_commits = [commit_on ''c0'' ''bob'' 2022 5 17]"

text \<open>The completion orders used below: submission order, and the second task first.\<close>

definition in_submission_order :: "nat \<Rightarrow> nat list" where
  "in_submission_order i = []"

definition second_first :: "nat \<Rightarrow> nat list" where
  "second_first i = [1, 0]"




text \<open>The two-commit history again, where the author of \<open>b2\<close> is printed in bytes that are not UTF-8.\<close>

definition garbled_popen :: "string \<Rightarrow> string list \<Rightarrow> error + proc_out" where
  "garbled_popen dir argv =
     (if ''--format='' @ [dq] @ ''%ae'' @ [dq] \<in> set argv \<and> ''b2'' \<in> set argv
      then Inr \<lparr>returncode = 0, stdout = Undecodable\<rparr>
      else example_popen 0 dir argv)"

definition garbled_library :: "token list library" where
  "garbled_library =
     \<lparr>popen = garbled_popen, parse = example_parse,
      pickle_dumps = serialize, pickle_loads = deserialize\<rparr>"

text \<open>A library whose processes all exit with status \<open>k\<close>, and otherwise behave as those of \<open>lib\<close>.\<close>

definition exiting_with :: "int \<Rightarrow> 'b library \<Rightarrow> 'b library" where
  "exiting_with k lib =
     lib\<lparr>popen := (\<lambda>dir argv.
            case popen lib dir argv of Inl e \<Rightarrow> Inl e | Inr p \<Rightarrow> Inr (p\<lparr>returncode := k\<rparr>))\<rparr>"

section \<open>The weekly mean, as the specification words it\<close>

text \<open>
  \<open>weekly_mean_for_authors(authors, year)\<close>: "restricts to commits by the given author set
  within \<open>[year-01-01, (year+1)-01-01)\<close>, groups by ISO week number, counts per week, returns
  the arithmetic mean of those weekly counts"; \<open>None\<close> is the undefined mean of no group.
\<close>

definition in_year :: "int \<Rightarrow> Commit \<Rightarrow> bool" where
  "in_year y c =
     (case created c of
        None \<Rightarrow> False
      | Some dt \<Rightarrow>
          date_le (first_of_january y) (dt_date dt) \<and> date_lt (dt_date dt) (first_of_january (y + 1)))"

definition by_authors :: "string list \<Rightarrow> Commit \<Rightarrow> bool" where
  "by_authors authors c = (case author c of None \<Rightarrow> False | Some a \<Rightarrow> a \<in> set authors)"

definition week_of :: "Commit \<Rightarrow> int" where
  "week_of c = (case created c of None \<Rightarrow> 0 | Some dt \<Rightarrow> iso_week (dt_date dt))"

definition weekly_counts :: "Commit list \<Rightarrow> int list" where
  "weekly_counts cs =
     map (\<lambda>k. int (length (filter (\<lambda>c. week_of c = k) cs))) (remdups (map week_of cs))"

definition weekly_mean_for_authors :: "string list \<Rightarrow> int \<Rightarrow> Commit list \<Rightarrow> rat option" where
  "weekly_mean_for_authors authors y commits =
     (let counts = weekly_counts (filter (\<lambda>c. in_year y c \<and> by_authors authors c) commits)
      in if counts = [] then None
         else Some (of_int (sum_list counts) / of_int (int (length counts))))"

section \<open>Lists of results\<close>

lemma map_e_Inr: "map_e f xs = Inr ys \<longleftrightarrow> map f xs = map Inr ys"
proof (induction xs arbitrary: ys)
  case Nil
  then show ?case by auto
next
  case (Cons x xs)
  show ?case
  proof (cases "f x")
    case (Inl e)
    then show ?thesis by (cases ys) auto
  next
    case fx: (Inr y)
    show ?thesis
    proof (cases "map_e f xs")
      case (Inl e)
      then have "\<And>zs. map f xs \<noteq> map Inr zs"
        using Cons.IH by simp
      with Inl fx show ?thesis by (cases ys) auto
    next
      case (Inr zs)
      then have "map f xs = map Inr zs"
        using Cons.IH by simp
      with Inr fx show ?thesis by (cases ys) (auto dest: map_inj_on)
    qed
  qed
qed

lemma map_e_Inl: "isl (map_e f xs) \<longleftrightarrow> (\<exists>x \<in> set xs. isl (f x))"
  by (induction xs) (auto split: sum.splits simp: isl_def)

section \<open>The pool hands back the results in submission order\<close>

lemma mset_completion_order: "mset (completion_order picks ts) = mset ts"
proof (induction picks ts rule: completion_order.induct)
  case (1 picks ts)
  show ?case
  proof (cases "ts = []")
    case True
    then show ?thesis by (simp add: completion_order.simps)
  next
    case False
    define k where "k = (case picks of [] \<Rightarrow> 0 | p # ps \<Rightarrow> p mod length ts)"
    have k: "k < length ts"
      using False by (cases picks) (simp_all add: k_def)
    have ih: "mset (completion_order (tl picks) (take k ts @ drop (Suc k) ts))
                = mset (take k ts @ drop (Suc k) ts)"
      using "1.IH" [OF False k_def] .
    have unf: "completion_order picks ts
                 = ts ! k # completion_order (tl picks) (take k ts @ drop (Suc k) ts)"
      using False by (subst completion_order.simps) (simp add: k_def Let_def)
    have "mset ts = mset (take k ts @ ts ! k # drop (Suc k) ts)"
      using id_take_nth_drop [OF k] by simp
    then show ?thesis
      by (simp add: unf ih)
  qed
qed

lemma first_failure_None: "first_failure es = None \<longleftrightarrow> (\<forall>p \<in> set es. \<not> isl (snd p))"
  by (induction es rule: first_failure.induct) (auto split: sum.splits)

lemma mset_returned:
  "mset (returned es) = image_mset (\<lambda>p. (fst p, projr (snd p))) (filter_mset (\<lambda>p. \<not> isl (snd p)) (mset es))"
  by (induction es rule: returned.induct) (auto split: sum.splits)

lemma returned_zip_Inr: "returned (zip [i..<i + length ys] (map Inr ys)) = zip [i..<i + length ys] ys"
proof (induction ys arbitrary: i)
  case Nil
  then show ?case by simp
next
  case (Cons y ys)
  have "[i..<i + length (y # ys)] = i # [Suc i..<Suc i + length ys]"
    by (simp add: upt_rec)
  then show ?case using Cons [of "Suc i"] by simp
qed

lemma pool_map_sequential_Inr:
  assumes "map_e f xs = Inr ys"
  shows "pool_map picks f xs = Inr ys"
proof -
  define es where "es = zip [0..<length xs] (map f xs)"
  define arrived where "arrived = completion_order picks es"
  have fx: "map f xs = map Inr ys"
    using assms by (simp add: map_e_Inr)
  then have len: "length ys = length xs"
    by (metis length_map)
  have es: "es = zip [0..<0 + length ys] (map Inr ys)"
    by (simp add: es_def fx len)
  have ms: "mset arrived = mset es"
    by (simp add: arrived_def mset_completion_order)
  have "\<forall>p \<in> set es. \<not> isl (snd p)"
    unfolding es by (auto dest!: set_zip_rightD)
  then have "\<forall>p \<in> set arrived. \<not> isl (snd p)"
    using ms by (metis mset_eq_setD)
  then have nofail: "first_failure arrived = None"
    by (simp add: first_failure_None)
  have "mset (returned arrived) = mset (returned es)"
    by (simp add: mset_returned ms)
  also have "returned es = zip [0..<0 + length ys] ys"
    unfolding es by (rule returned_zip_Inr)
  finally have mr: "mset (returned arrived) = mset (zip [0..<length ys] ys)"
    by simp
  have keys: "map fst (zip [0..<length ys] ys) = [0..<length ys]"
    by simp
  have "inj_on fst (set (zip [0..<length ys] ys))"
    using keys by (metis distinct_map distinct_upt)
  then have inj: "inj_on fst (set (returned arrived))"
    using mr by (metis mset_eq_setD)
  have "sort_key fst (returned arrived) = zip [0..<length ys] ys"
    using mr inj by (rule sort_key_inj_key_eq) (simp add: keys del: map_fst_zip)
  then have "map snd (sort_key fst (returned arrived)) = ys"
    by simp
  then show ?thesis
    using nofail by (simp add: pool_map_def Let_def es_def [symmetric] arrived_def [symmetric])
qed

lemma pool_map_sequential_Inl:
  assumes "map_e f xs = Inl e"
  shows "isl (pool_map picks f xs)"
proof -
  define es where "es = zip [0..<length xs] (map f xs)"
  define arrived where "arrived = completion_order picks es"
  have "isl (map_e f xs)"
    using assms by simp
  then obtain x where x: "x \<in> set xs" "isl (f x)"
    by (auto simp: map_e_Inl)
  then obtain i where i: "i < length xs" "xs ! i = x"
    by (auto simp: in_set_conv_nth)
  then have "(i, f x) \<in> set es"
    unfolding es_def in_set_zip by (intro exI [of _ i]) simp
  moreover have "set arrived = set es"
    by (metis arrived_def mset_completion_order mset_eq_setD)
  ultimately have "\<exists>p \<in> set arrived. isl (snd p)"
    using x by force
  then have "first_failure arrived \<noteq> None"
    by (simp add: first_failure_None)
  then show ?thesis
    by (auto simp: pool_map_def Let_def es_def [symmetric] arrived_def [symmetric])
qed

lemma pool_map_Inr_iff: "pool_map picks f xs = Inr ys \<longleftrightarrow> map_e f xs = Inr ys"
proof
  assume p: "pool_map picks f xs = Inr ys"
  show "map_e f xs = Inr ys"
  proof (cases "map_e f xs")
    case (Inl e)
    then have "isl (pool_map picks f xs)"
      by (rule pool_map_sequential_Inl)
    with p show ?thesis by simp
  next
    case (Inr zs)
    then have "pool_map picks f xs = Inr zs"
      by (rule pool_map_sequential_Inr)
    with p Inr show ?thesis by simp
  qed
qed (rule pool_map_sequential_Inr)

text \<open>Every order in which the tasks can finish is the completion order of some \<open>picks\<close>.\<close>

lemma every_completion_order_arises:
  "mset ys = mset ts \<Longrightarrow> \<exists>picks. completion_order picks ts = ys"
proof (induction ys arbitrary: ts)
  case Nil
  then show ?case by (simp add: completion_order.simps)
next
  case (Cons y ys)
  then have "y \<in> set ts"
    by (metis list.set_intros(1) mset_eq_setD)
  then obtain k where k: "k < length ts" "ts ! k = y"
    by (auto simp: in_set_conv_nth)
  have "mset ts = mset (take k ts @ ts ! k # drop (Suc k) ts)"
    using id_take_nth_drop [OF k(1)] by simp
  then have "mset ys = mset (take k ts @ drop (Suc k) ts)"
    using Cons.prems k(2) by simp
  then obtain picks where p: "completion_order picks (take k ts @ drop (Suc k) ts) = ys"
    using Cons.IH by blast
  have "ts \<noteq> []"
    using k(1) by auto
  then have "completion_order (k # picks) ts = y # ys"
    using k p by (subst completion_order.simps) simp
  then show ?case ..
qed

text \<open>
  C1.  In every fan-out phase the field assignment made from the results of the pool is the
  one a sequential run of the phase makes, whatever order the workers finish in: when the
  sequential phase yields the commits \<open>cs\<close>, so does the parallel one, and when the
  sequential phase raises, the parallel one raises too.
\<close>

theorem parallel_phase_equals_sequential:
  "(case phase sequential_map task setter commits of
      Inr cs \<Rightarrow> phase (pool_map picks) task setter commits = Inr cs
    | Inl e \<Rightarrow> isl (phase (pool_map picks) task setter commits))"
proof (cases "sequential_map task commits")
  case (Inl e)
  then have "isl (pool_map picks task commits)"
    by (simp add: sequential_map_def pool_map_sequential_Inl)
  then obtain e' where "pool_map picks task commits = Inl e'"
    by (auto simp: isl_def)
  with Inl show ?thesis
    by (simp add: phase_def)
next
  case (Inr result)
  then have "pool_map picks task commits = Inr result"
    by (simp add: sequential_map_def pool_map_sequential_Inr)
  with Inr show ?thesis
    by (simp add: phase_def split: sum.split)
qed

section \<open>The values of a phase and the fields they set\<close>

lemma phase_pool_Inr:
  assumes "phase (pool_map picks) task setter cs = Inr cs'"
  shows "list_all2 (\<lambda>c c'. \<exists>r. task c = Inr r \<and> setter (r, c) = Inr c') cs cs'"
proof -
  from assms obtain result where r: "pool_map picks task cs = Inr result"
    and s: "map_e setter (zip result cs) = Inr cs'"
    by (auto simp: phase_def split: sum.splits)
  have t: "map task cs = map Inr result"
    using r by (simp add: pool_map_Inr_iff map_e_Inr)
  have u: "map setter (zip result cs) = map Inr cs'"
    using s by (simp add: map_e_Inr)
  have l1: "length result = length cs"
    using t by (metis length_map)
  have l2: "length cs' = length cs"
    using u l1 by (metis length_map length_zip min.idem)
  show ?thesis
  proof (rule list_all2_all_nthI)
    show "length cs = length cs'" using l2 by simp
  next
    fix n assume n: "n < length cs"
    have "task (cs ! n) = Inr (result ! n)"
      using t n l1 by (metis nth_map)
    moreover have "setter (result ! n, cs ! n) = Inr (cs' ! n)"
      using u n l1 l2 by (metis length_zip min.idem nth_map nth_zip)
    ultimately show "\<exists>r. task (cs ! n) = Inr r \<and> setter (r, cs ! n) = Inr (cs' ! n)"
      by blast
  qed
qed

lemma phase_pool_Inl:
  assumes "c \<in> set cs" "isl (task c)"
  shows "isl (phase (pool_map picks) task setter cs)"
proof -
  have "isl (map_e task cs)"
    using assms by (auto simp: map_e_Inl)
  then obtain e where "map_e task cs = Inl e"
    by (auto simp: isl_def)
  then have "isl (pool_map picks task cs)"
    by (rule pool_map_sequential_Inl)
  then show ?thesis
    by (auto simp: phase_def isl_def)
qed

lemma as_str_Inr: "as_str v = Inr s \<longleftrightarrow> v = Str s"
  by (cases v) (simp_all add: as_str_def)

lemma as_datetime_Inr: "as_datetime v = Inr d \<longleftrightarrow> v = DateTime d"
  by (cases v) (simp_all add: as_datetime_def)

lemma map_as_str: "map as_str xs = map Inr ss \<longleftrightarrow> xs = map Str ss"
proof (induction xs arbitrary: ss)
  case Nil
  then show ?case by auto
next
  case (Cons x xs)
  then show ?case by (cases ss) (auto simp: as_str_Inr)
qed

lemma as_str_list_Inr: "as_str_list v = Inr ss \<longleftrightarrow> v = PyList (map Str ss)"
  by (cases v) (simp_all add: as_str_list_def map_e_Inr map_as_str)

lemma as_lines_PyList: "as_lines (PyList xs) = Inr ss \<longleftrightarrow> xs = map Str ss"
  by (simp add: as_lines_def map_e_Inr map_as_str)

lemma as_str_list_map_Str: "as_str_list (PyList (map Str ss)) = Inr ss"
  by (simp add: as_str_list_Inr)

lemma map_Str_eq: "map Str xs = map Str ys \<longleftrightarrow> xs = ys"
  by (simp add: inj_map_eq_map inj_on_def)

lemma set_files_Inr: "set_files (r, c) = Inr c' \<longleftrightarrow> (\<exists>fs. r = PyList (map Str fs) \<and> c' = c\<lparr>files := fs\<rparr>)"
proof (cases "as_str_list r")
  case (Inl e)
  then have "\<And>fs. r \<noteq> PyList (map Str fs)"
    by (auto simp: as_str_list_map_Str)
  with Inl show ?thesis
    by (simp add: set_files_def)
next
  case (Inr fs)
  then have "r = PyList (map Str fs)"
    by (simp add: as_str_list_Inr)
  with Inr show ?thesis
    by (auto simp: set_files_def map_Str_eq)
qed

lemma set_author_Inr: "set_author (r, c) = Inr c' \<longleftrightarrow> (\<exists>a. r = Str a \<and> c' = c\<lparr>author := Some a\<rparr>)"
  by (cases r) (auto simp: set_author_def as_str_def)

lemma set_created_Inr: "set_created (r, c) = Inr c' \<longleftrightarrow> (\<exists>d. r = DateTime d \<and> c' = c\<lparr>created := Some d\<rparr>)"
  by (cases r) (auto simp: set_created_def as_datetime_def)

lemma as_lines_map_Str: "as_lines (PyList (map Str ss)) = Inr ss"
  by (simp add: as_lines_PyList)

lemma set_message_PyList:
  "set_message (PyList xs, c) = Inr c'
     \<longleftrightarrow> (\<exists>ls. xs = map Str ls \<and> c' = c\<lparr>message := Some (strip (join CHR 0x0A ls))\<rparr>)"
proof (cases "as_lines (PyList xs)")
  case (Inl e)
  then have "\<And>ls. xs \<noteq> map Str ls"
    by (auto simp: as_lines_map_Str)
  with Inl show ?thesis
    by (simp add: set_message_def)
next
  case (Inr ls)
  then have "xs = map Str ls"
    by (simp add: as_lines_PyList)
  with Inr show ?thesis
    by (auto simp: set_message_def map_Str_eq)
qed

text \<open>What \<open>run_cmd\<close> returns, in terms of the lines it returns when nothing transforms them.\<close>

lemma split_on_not_Nil: "split_on sep s \<noteq> []"
  by (induction s) (auto split: list.splits)

lemma map_e_chomp_quotes: "map_e chomp_quotes (map Str ls) = Inr (map Str (map chomp_quotes_str ls))"
  by (induction ls) (simp_all add: chomp_quotes_def)

lemma run_cmd_raw:
  "(\<exists>e. run_cmd lib dir c args NoLineFn None = Inl e)
     \<or> (\<exists>ls. ls \<noteq> [] \<and> run_cmd lib dir c args NoLineFn None = Inr (PyList (map Str ls)))"
proof (cases "run_cmd lib dir c args NoLineFn None")
  case (Inl e)
  then show ?thesis by simp
next
  case (Inr v)
  then obtain s where "v = PyList (map Str (split_on CHR 0x0A (strip s)))"
    by (auto simp: run_cmd_def apply_preprocess_line_def split: sum.splits)
  with Inr show ?thesis
    using split_on_not_Nil by blast
qed

lemma run_cmd_raw_Inr:
  assumes "run_cmd lib dir c args NoLineFn None = Inr v"
  obtains ls where "ls \<noteq> []" "v = PyList (map Str ls)"
  using assms run_cmd_raw [of lib dir c args] by auto

lemma run_cmd_Inl:
  "run_cmd lib dir c args NoLineFn None = Inl e \<Longrightarrow> run_cmd lib dir c args pl pw = Inl e"
  by (auto simp: run_cmd_def apply_preprocess_line_def split: sum.splits)

lemma run_cmd_lines:
  "run_cmd lib dir c args NoLineFn None = Inr (PyList (map Str ls)) \<Longrightarrow>
   run_cmd lib dir c args pl pw =
     (case apply_preprocess_line pl (map Str ls) of
        Inl e \<Rightarrow> Inl e
      | Inr out \<Rightarrow> Inr (case pw of Some whole \<Rightarrow> whole (PyList out) | None \<Rightarrow> PyList out))"
  by (auto simp: run_cmd_def apply_preprocess_line_def map_Str_eq split: sum.splits option.splits)

lemma run_cmd_chomp:
  "run_cmd lib dir c args NoLineFn None = Inr (PyList (map Str ls)) \<Longrightarrow>
   run_cmd lib dir c args (LineFn chomp_quotes) None = Inr (PyList (map Str (map chomp_quotes_str ls)))"
  by (simp add: run_cmd_lines apply_preprocess_line_def map_e_chomp_quotes)

lemma run_cmd_chomp_first:
  assumes "run_cmd lib dir c args NoLineFn None = Inr (PyList (map Str ls))"
  shows "\<exists>l ls2. ls = l # ls2 \<and>
           run_cmd lib dir c args (LineFn chomp_quotes) (Some first) = Inr (Str (chomp_quotes_str l))"
proof -
  obtain ls' where "ls' \<noteq> []" "PyList (map Str ls) = PyList (map Str ls')"
    using assms by (rule run_cmd_raw_Inr)
  then have "ls \<noteq> []" by auto
  then obtain l ls2 where l: "ls = l # ls2"
    by (cases ls) auto
  have "run_cmd lib dir c args (LineFn chomp_quotes) (Some first)
          = Inr (first (PyList (map Str (map chomp_quotes_str ls))))"
    by (simp add: run_cmd_lines [OF assms] apply_preprocess_line_def map_e_chomp_quotes)
  then show ?thesis
    by (simp add: l first_def)
qed

lemma parse_line_Str:
  "parse_line lib (Str l) = (case parse lib l of Inl e \<Rightarrow> Inl e | Inr d \<Rightarrow> Inr (DateTime d))"
  by (simp add: parse_line_def)

lemma map_e_parse_line:
  "map_e (parse_line lib) (map Str ls) = Inr out \<Longrightarrow> \<exists>ds. out = map DateTime ds \<and> length ds = length ls"
proof (induction ls arbitrary: out)
  case Nil
  then show ?case by simp
next
  case (Cons l ls)
  from Cons.prems obtain d out' where d: "parse_line lib (Str l) = Inr d"
    and out': "map_e (parse_line lib) (map Str ls) = Inr out'" and out: "out = d # out'"
    by (auto split: sum.splits)
  from d obtain t where t: "d = DateTime t"
    by (auto simp: parse_line_Str split: sum.splits)
  from Cons.IH [OF out'] obtain ds where "out' = map DateTime ds" "length ds = length ls"
    by blast
  with out t have "out = map DateTime (t # ds) \<and> length (t # ds) = length (l # ls)"
    by simp
  then show ?case by blast
qed

lemma date_task_Inr:
  assumes "date_task lib dir c = Inr v"
  shows "\<exists>d. v = DateTime d"
proof -
  let ?raw = "run_cmd lib dir (Template CMD_GET_COMMIT_DATE) [c] NoLineFn None"
  from run_cmd_raw [of lib dir "Template CMD_GET_COMMIT_DATE" "[c]"]
  show ?thesis
  proof (elim disjE exE conjE)
    fix e assume "?raw = Inl e"
    then have "date_task lib dir c = Inl e"
      unfolding date_task_def by (rule run_cmd_Inl)
    with assms show ?thesis by simp
  next
    fix ls assume ls: "ls \<noteq> []" "?raw = Inr (PyList (map Str ls))"
    have "date_task lib dir c =
            (case map_e (parse_line lib) (map Str (map chomp_quotes_str ls)) of
               Inl e \<Rightarrow> Inl e | Inr out \<Rightarrow> Inr (first (PyList out)))"
      unfolding date_task_def
      by (simp add: run_cmd_lines [OF ls(2)] apply_preprocess_line_def map_e_chomp_quotes
          split: sum.splits)
    with assms obtain out where out: "map_e (parse_line lib) (map Str (map chomp_quotes_str ls)) = Inr out"
      "v = first (PyList out)"
      by (auto split: sum.splits)
    then obtain ds where ds: "out = map DateTime ds" "length ds = length (map chomp_quotes_str ls)"
      using map_e_parse_line by blast
    with ls(1) obtain d ds' where "ds = d # ds'"
      by (cases ds) auto
    with out ds show ?thesis
      by (simp add: first_def)
  qed
qed

lemma task_cid:
  assumes "cid c = cid c'"
  shows "files_task lib dir c = files_task lib dir c'"
    and "author_task lib dir c = author_task lib dir c'"
    and "date_task lib dir c = date_task lib dir c'"
    and "message_task lib dir c = message_task lib dir c'"
  using assms
  by (simp_all add: files_task_def author_task_def date_task_def message_task_def run_cmd_def
      command_text_def CMD_GET_COMMIT_FILES_def CMD_GET_COMMIT_AUTHOR_def CMD_GET_COMMIT_DATE_def
      CMD_GET_COMMIT_MESSAGE_def)

section \<open>What a successful build stores\<close>


lemma ingest_Inr:
  assumes "ingest lib picks w = (Inr cs, w')"
  obtains c0 c1 c2 c3 where
    "enumerate_commits lib (cwd w) = Inr c0"
    "phase (pool_map (picks 0)) (files_task lib (cwd w)) set_files c0 = Inr c1"
    "phase (pool_map (picks 1)) (author_task lib (cwd w)) set_author c1 = Inr c2"
    "phase (pool_map (picks 2)) (date_task lib (cwd w)) set_created c2 = Inr c3"
    "phase (pool_map (picks 3)) (message_task lib (cwd w)) set_message c3 = Inr cs"
    "w' = dump_commits lib cs (spawn (1 + 4 * length c0) w)"
  using assms unfolding ingest_def by (auto split: sum.splits)

lemma ingest_Inl_artifact:
  "ingest lib picks w = (Inl e, w') \<Longrightarrow> artifact w' = artifact w"
  unfolding ingest_def by (auto simp: spawn_def split: sum.splits)


lemma files_step:
  assumes "files_task lib dir c = Inr r" "set_files (r, c) = Inr c'"
  shows "\<exists>fs. fs \<noteq> [] \<and> files_task lib dir c = Inr (PyList (map Str fs)) \<and> c' = c\<lparr>files := fs\<rparr>"
proof -
  obtain ls where "ls \<noteq> []" "r = PyList (map Str ls)"
    using assms(1) unfolding files_task_def by (rule run_cmd_raw_Inr)
  moreover from assms(2) obtain fs where "r = PyList (map Str fs)" "c' = c\<lparr>files := fs\<rparr>"
    by (auto simp: set_files_Inr)
  ultimately show ?thesis
    using assms(1) by (auto simp: map_Str_eq)
qed

lemma author_step:
  assumes "author_task lib dir c = Inr r" "set_author (r, c) = Inr c'"
  shows "\<exists>a. author_task lib dir c = Inr (Str a) \<and> c' = c\<lparr>author := Some a\<rparr>"
  using assms by (auto simp: set_author_Inr)

lemma created_step:
  assumes "date_task lib dir c = Inr r" "set_created (r, c) = Inr c'"
  shows "\<exists>d. date_task lib dir c = Inr (DateTime d) \<and> c' = c\<lparr>created := Some d\<rparr>"
  using assms by (auto simp: set_created_Inr)

lemma message_task_Inr:
  assumes "message_task lib dir c = Inr r"
  shows "\<exists>ls. run_cmd lib dir (Template CMD_GET_COMMIT_MESSAGE) [c] NoLineFn None = Inr (PyList (map Str ls))
           \<and> r = PyList (map Str (map chomp_quotes_str ls))"
proof -
  let ?raw = "run_cmd lib dir (Template CMD_GET_COMMIT_MESSAGE) [c] NoLineFn None"
  have "\<not> isl ?raw"
  proof
    assume "isl ?raw"
    then obtain e where "?raw = Inl e" by (auto simp: isl_def)
    then have "message_task lib dir c = Inl e"
      unfolding message_task_def by (rule run_cmd_Inl)
    with assms show False by simp
  qed
  then obtain ls where ls: "?raw = Inr (PyList (map Str ls))"
    using run_cmd_raw [of lib dir "Template CMD_GET_COMMIT_MESSAGE" "[c]"] by auto
  then have "message_task lib dir c = Inr (PyList (map Str (map chomp_quotes_str ls)))"
    unfolding message_task_def by (rule run_cmd_chomp)
  with assms ls show ?thesis by auto
qed

lemma message_step:
  assumes "message_task lib dir c = Inr r" "set_message (r, c) = Inr c'"
  shows "\<exists>ls. message_task lib dir c = Inr (PyList (map Str ls))
           \<and> c' = c\<lparr>message := Some (strip (join CHR 0x0A ls))\<rparr>"
proof -
  obtain ls where r: "r = PyList (map Str (map chomp_quotes_str ls))"
    using message_task_Inr [OF assms(1)] by blast
  with assms(2) obtain ls' where "map Str (map chomp_quotes_str ls) = map Str ls'"
    "c' = c\<lparr>message := Some (strip (join CHR 0x0A ls'))\<rparr>"
    unfolding r set_message_PyList by blast
  with assms(1) r show ?thesis by auto
qed

lemma ingest_fields:
  assumes "ingest lib picks w = (Inr cs, w')"
  shows "\<exists>c0. enumerate_commits lib (cwd w) = Inr c0 \<and>
           w' = dump_commits lib cs (spawn (1 + 4 * length c0) w) \<and>
           list_all2 (\<lambda>c0 c.
             cid c = cid c0 \<and> files c \<noteq> [] \<and>
             files_task lib (cwd w) c = Inr (PyList (map Str (files c))) \<and>
             (\<exists>a. author c = Some a \<and> author_task lib (cwd w) c = Inr (Str a)) \<and>
             (\<exists>d. created c = Some d \<and> date_task lib (cwd w) c = Inr (DateTime d)) \<and>
             (\<exists>ls. message c = Some (strip (join CHR 0x0A ls)) \<and>
                   message_task lib (cwd w) c = Inr (PyList (map Str ls)))) c0 cs"
proof -
  let ?dir = "cwd w"
  from assms obtain c0 c1 c2 c3 where
    e: "enumerate_commits lib ?dir = Inr c0" and
    p1: "phase (pool_map (picks 0)) (files_task lib ?dir) set_files c0 = Inr c1" and
    p2: "phase (pool_map (picks 1)) (author_task lib ?dir) set_author c1 = Inr c2" and
    p3: "phase (pool_map (picks 2)) (date_task lib ?dir) set_created c2 = Inr c3" and
    p4: "phase (pool_map (picks 3)) (message_task lib ?dir) set_message c3 = Inr cs" and
    w': "w' = dump_commits lib cs (spawn (1 + 4 * length c0) w)"
    by (rule ingest_Inr)
  let ?R1 = "\<lambda>c c'. \<exists>fs. fs \<noteq> [] \<and> files_task lib ?dir c = Inr (PyList (map Str fs)) \<and> c' = c\<lparr>files := fs\<rparr>"
  let ?R2 = "\<lambda>c c'. \<exists>a. author_task lib ?dir c = Inr (Str a) \<and> c' = c\<lparr>author := Some a\<rparr>"
  let ?R3 = "\<lambda>c c'. \<exists>d. date_task lib ?dir c = Inr (DateTime d) \<and> c' = c\<lparr>created := Some d\<rparr>"
  let ?R4 = "\<lambda>c c'. \<exists>ls. message_task lib ?dir c = Inr (PyList (map Str ls))
               \<and> c' = c\<lparr>message := Some (strip (join CHR 0x0A ls))\<rparr>"
  have s1: "list_all2 ?R1 c0 c1"
    using phase_pool_Inr [OF p1] by (rule list_all2_mono) (use files_step in blast)
  have s2: "list_all2 ?R2 c1 c2"
    using phase_pool_Inr [OF p2] by (rule list_all2_mono) (use author_step in blast)
  have s3: "list_all2 ?R3 c2 c3"
    using phase_pool_Inr [OF p3] by (rule list_all2_mono) (use created_step in blast)
  have s4: "list_all2 ?R4 c3 cs"
    using phase_pool_Inr [OF p4] by (rule list_all2_mono) (use message_step in blast)
  let ?R12 = "\<lambda>c c'. cid c' = cid c \<and> files c' \<noteq> [] \<and>
     files_task lib ?dir c' = Inr (PyList (map Str (files c'))) \<and>
     (\<exists>a. author c' = Some a \<and> author_task lib ?dir c' = Inr (Str a))"
  have s12: "list_all2 ?R12 c0 c2"
  proof (rule list_all2_trans [OF _ s1 s2])
    fix a b c assume "?R1 a b" "?R2 b c"
    then obtain fs au where fs: "fs \<noteq> []" "files_task lib ?dir a = Inr (PyList (map Str fs))"
      "b = a\<lparr>files := fs\<rparr>" and au: "author_task lib ?dir b = Inr (Str au)" "c = b\<lparr>author := Some au\<rparr>"
      by blast
    have ca: "cid c = cid a" and cb: "cid c = cid b"
      using fs au by simp_all
    have "files_task lib ?dir c = files_task lib ?dir a" "author_task lib ?dir c = author_task lib ?dir b"
      using task_cid(1) [OF ca] task_cid(2) [OF cb] by blast+
    then show "?R12 a c"
      using fs au by simp
  qed
  let ?R123 = "\<lambda>c c'. ?R12 c c' \<and> (\<exists>d. created c' = Some d \<and> date_task lib ?dir c' = Inr (DateTime d))"
  have s123: "list_all2 ?R123 c0 c3"
  proof (rule list_all2_trans [OF _ s12 s3])
    fix a b c assume ab: "?R12 a b" and "?R3 b c"
    then obtain d where d: "date_task lib ?dir b = Inr (DateTime d)" "c = b\<lparr>created := Some d\<rparr>"
      by blast
    have cb: "cid c = cid b"
      using d by simp
    have "files_task lib ?dir c = files_task lib ?dir b" "author_task lib ?dir c = author_task lib ?dir b"
      "date_task lib ?dir c = date_task lib ?dir b"
      using task_cid [OF cb] by blast+
    then show "?R123 a c"
      using ab d by simp
  qed
  let ?R = "\<lambda>c c'. ?R123 c c' \<and> (\<exists>ls. message c' = Some (strip (join CHR 0x0A ls)) \<and>
                   message_task lib ?dir c' = Inr (PyList (map Str ls)))"
  have s: "list_all2 ?R c0 cs"
  proof (rule list_all2_trans [OF _ s123 s4])
    fix a b c assume ab: "?R123 a b" and "?R4 b c"
    then obtain ls where ls: "message_task lib ?dir b = Inr (PyList (map Str ls))"
      "c = b\<lparr>message := Some (strip (join CHR 0x0A ls))\<rparr>"
      by blast
    have cb: "cid c = cid b"
      using ls by simp
    have "files_task lib ?dir c = files_task lib ?dir b" "author_task lib ?dir c = author_task lib ?dir b"
      "date_task lib ?dir c = date_task lib ?dir b" "message_task lib ?dir c = message_task lib ?dir b"
      using task_cid [OF cb] by blast+
    then show "?R a c"
      using ab ls by auto
  qed
  have "list_all2 (\<lambda>c0 c.
             cid c = cid c0 \<and> files c \<noteq> [] \<and>
             files_task lib (cwd w) c = Inr (PyList (map Str (files c))) \<and>
             (\<exists>a. author c = Some a \<and> author_task lib (cwd w) c = Inr (Str a)) \<and>
             (\<exists>d. created c = Some d \<and> date_task lib (cwd w) c = Inr (DateTime d)) \<and>
             (\<exists>ls. message c = Some (strip (join CHR 0x0A ls)) \<and>
                   message_task lib (cwd w) c = Inr (PyList (map Str ls)))) c0 cs"
    using s by (rule list_all2_mono) blast
  with e w' show ?thesis by blast
qed

text \<open>
  C1, at a concrete phase: the files of the two commits of the example history, with the
  second worker finishing first.
\<close>

theorem parallel_phase_equals_sequential_witness:
  "phase (pool_map [1, 0]) (files_task (example_library 0) REPO_PATH) set_files
     [new_Commit ''a1'', new_Commit ''b2'']
   = Inr [(new_Commit ''a1'')\<lparr>files := [''src/x.py'', ''README.md'']\<rparr>,
          (new_Commit ''b2'')\<lparr>files := [[]]\<rparr>]"
proof -
  have seq: "phase sequential_map (files_task (example_library 0) REPO_PATH) set_files
               [new_Commit ''a1'', new_Commit ''b2'']
             = Inr [(new_Commit ''a1'')\<lparr>files := [''src/x.py'', ''README.md'']\<rparr>,
                    (new_Commit ''b2'')\<lparr>files := [[]]\<rparr>]"
    by code_simp
  show ?thesis
    using parallel_phase_equals_sequential
      [where task = "files_task (example_library 0) REPO_PATH" and setter = set_files
         and commits = "[new_Commit ''a1'', new_Commit ''b2'']" and picks = "[1, 0]"]
    by (simp add: seq)
qed

section \<open>The persisted artifact round-trips\<close>

lemma read_created_write: "read_created (write_created x @ ts) = Some (x, ts)"
  by (cases x) (simp_all add: write_created_def)

lemma read_opt_str_write: "read_opt_str (write_opt_str x @ ts) = Some (x, ts)"
  by (cases x) (simp_all add: write_opt_str_def)

lemma read_strs_write: "read_strs (length fs) (map TStr fs @ ts) = Some (fs, ts)"
  by (induction fs) simp_all

lemma read_files_write: "read_files (TInt (int (length fs)) # map TStr fs @ ts) = Some (fs, ts)"
  by (simp add: read_strs_write)

lemma read_commit_write: "read_commit (write_commit c @ ts) = Some (c, ts)"
  by (simp add: write_commit_def read_created_write read_opt_str_write read_files_write
      del: read_files.simps)

lemma read_commits_write:
  "read_commits (length cs) (concat (map write_commit cs) @ ts) = Some (cs, ts)"
  by (induction cs) (simp_all add: read_commit_write)

lemma deserialize_serialize: "deserialize (serialize store) = Inr store"
  using read_commits_write [of store "[]"] by (simp add: serialize_def)

text \<open>
  C7.  Reading back the artifact that was written for a store yields that store, equal in
  every field of every commit, for a store of any size.
\<close>

theorem artifact_round_trip:
  "load_commits (with_artifact_format lib) (dump_commits (with_artifact_format lib) store w) = Inr store"
  by (simp add: load_commits_def dump_commits_def with_artifact_format_def deserialize_serialize)

theorem artifact_round_trip_witness:
  "load_commits (with_artifact_format (example_library 0))
     (dump_commits (with_artifact_format (example_library 0)) example_store example_world)
   = Inr example_store"
  using artifact_round_trip [of "example_library 0" example_store example_world] .

section \<open>The cache-aware build\<close>

lemma get_or_create_commits_build:
  assumes "artifact w = None"
  shows "get_or_create_commits lib picks False w =
           (case ingest lib picks (w\<lparr>cwd := REPO_PATH\<rparr>) of
              (Inl e, w2) \<Rightarrow> (Inl e, w2)
            | (Inr commits, w2) \<Rightarrow> (Inr commits, w2\<lparr>cwd := cwd w\<rparr>))"
  using assms by (simp add: get_or_create_commits_def isfile_def)

lemma get_or_create_commits_cached:
  assumes "artifact w = Some content"
  shows "get_or_create_commits lib picks False w = (pickle_loads lib content, w)"
  using assms by (simp add: get_or_create_commits_def isfile_def load_commits_def)

lemma build_Inr:
  assumes "artifact w = None" "get_or_create_commits lib picks False w = (Inr cs, w')"
  obtains w2 where "ingest lib picks (w\<lparr>cwd := REPO_PATH\<rparr>) = (Inr cs, w2)" "w' = w2\<lparr>cwd := cwd w\<rparr>"
  using assms by (auto simp: get_or_create_commits_build split: prod.splits sum.splits)

lemma length_enumerated:
  assumes "ingest lib picks w = (Inr cs, w')" "enumerate_commits lib (cwd w) = Inr c0"
  shows "length cs = length c0"
  using ingest_fields [OF assms(1)] assms(2) by (auto dest: list_all2_lengthD)

text \<open>The build of the example history, with the second worker finishing first in every phase.\<close>

lemma example_build:
  "get_or_create_commits (example_library 0) second_first False example_world
     = (Inr example_store,
        \<lparr>artifact = Some (serialize example_store), cwd = ''/tmp'', spawned = 9\<rparr>)"
  by code_simp

text \<open>
  C8.  When there is no artifact and a call without \<open>force\<close> returns the store \<open>cs\<close>, that
  call has spawned the processes of one ingestion (one enumeration and four per commit) and
  has persisted \<open>cs\<close>; a second call without \<open>force\<close> then returns \<open>cs\<close> again and leaves the
  world as it is, the count of spawned processes included.  (The store read back is the one
  written: \<open>pickle.load\<close> inverts \<open>pickle.dump\<close> on it.)
\<close>

theorem second_call_reuses_artifact:
  assumes "artifact w = None"
    and "get_or_create_commits lib picks False w = (Inr cs, w')"
    and "pickle_loads lib (pickle_dumps lib cs) = Inr cs"
  shows "artifact w' = Some (pickle_dumps lib cs)
       \<and> spawned w' = spawned w + 1 + 4 * length cs
       \<and> get_or_create_commits lib picks' False w' = (Inr cs, w')"
proof -
  obtain w2 where i: "ingest lib picks (w\<lparr>cwd := REPO_PATH\<rparr>) = (Inr cs, w2)"
    and w': "w' = w2\<lparr>cwd := cwd w\<rparr>"
    using assms(1,2) by (rule build_Inr)
  obtain c0 where c0: "enumerate_commits lib (cwd (w\<lparr>cwd := REPO_PATH\<rparr>)) = Inr c0"
    and w2: "w2 = dump_commits lib cs (spawn (1 + 4 * length c0) (w\<lparr>cwd := REPO_PATH\<rparr>))"
    using ingest_fields [OF i] by blast
  have len: "length cs = length c0"
    using i c0 by (rule length_enumerated)
  have a: "artifact w' = Some (pickle_dumps lib cs)"
    by (simp add: w' w2 dump_commits_def spawn_def)
  have s: "spawned w' = spawned w + 1 + 4 * length cs"
    by (simp add: w' w2 dump_commits_def spawn_def len)
  have "get_or_create_commits lib picks' False w' = (Inr cs, w')"
    using a assms(3) by (simp add: get_or_create_commits_cached)
  with a s show ?thesis by simp
qed

theorem second_call_reuses_artifact_witness:
  "artifact example_world = None
   \<and> get_or_create_commits (example_library 0) second_first False example_world
       = (Inr example_store,
          \<lparr>artifact = Some (serialize example_store), cwd = ''/tmp'', spawned = 9\<rparr>)
   \<and> pickle_loads (example_library 0) (pickle_dumps (example_library 0) example_store)
       = Inr example_store
   \<and> get_or_create_commits (example_library 0) in_submission_order False
        \<lparr>artifact = Some (serialize example_store), cwd = ''/tmp'', spawned = 9\<rparr>
       = (Inr example_store,
          \<lparr>artifact = Some (serialize example_store), cwd = ''/tmp'', spawned = 9\<rparr>)"
proof -
  have h1: "artifact example_world = None"
    by (simp add: example_world_def)
  have h3: "pickle_loads (example_library 0) (pickle_dumps (example_library 0) example_store)
              = Inr example_store"
    by (simp add: example_library_def deserialize_serialize)
  have pd: "pickle_dumps (example_library 0) example_store = serialize example_store"
    by (simp add: example_library_def)
  show ?thesis
    using second_call_reuses_artifact [OF h1 example_build h3, of in_submission_order]
      h1 example_build h3
    by (simp add: pd)
qed

text \<open>
  C4.  With \<open>force\<close> set and no artifact at the path, the call raises \<open>FileNotFoundError\<close>:
  \<open>os.remove\<close> is called without a test that the file exists.
\<close>

theorem forced_build_without_artifact:
  "get_or_create_commits lib picks True (w\<lparr>artifact := None\<rparr>)
     = (Inl FileNotFoundError, w\<lparr>artifact := None\<rparr>)"
  by (simp add: get_or_create_commits_def os_remove_def isfile_def)

text \<open>With \<open>force\<close> set and an artifact at the path, the artifact is deleted and the store rebuilt.\<close>

lemma forced_build_with_artifact:
  "artifact w = Some content \<Longrightarrow>
   get_or_create_commits lib picks True w
     = get_or_create_commits lib picks False (w\<lparr>artifact := None\<rparr>)"
  by (simp add: get_or_create_commits_def os_remove_def isfile_def)

section \<open>The weekly mean\<close>

text \<open>
  C5.  On a store in which no commit matches the author and the year, the weekly-mean query
  raises \<open>StatisticsError\<close>: \<open>statistics.mean\<close> is called on no data.
\<close>

theorem weekly_mean_of_no_match:
  "get_average_count_by_author_in_year other_commits ''alice'' 2023 = Inl StatisticsError"
  by code_simp

section \<open>The stored message\<close>








section \<open>A commit that changes no file\<close>

lemma run_cmd_empty_output:
  assumes "command_text c args = Inr text" "popen lib dir (split_ws text) = Inr p"
    "stdout p = Utf8 s" "strip s = []"
  shows "run_cmd lib dir c args NoLineFn None = Inr (PyList [Str []])"
  using assms by (simp add: run_cmd_def decode_def apply_preprocess_line_def)

lemma starts_with_Nil: "starts_with xs [] \<longleftrightarrow> xs = []"
  by (cases xs) simp_all

lemma no_extension_in_empty_path: "edited_specific_extension ext (c\<lparr>files := [[]]\<rparr>) = Inr False"
  by (simp add: edited_specific_extension_def basename_def ends_with_def starts_with_Nil)

text \<open>
  C9, as stated, fails: the commit \<open>b2\<close> of the example history, whose changed-files command
  prints nothing, is stored with one file, the empty path, and not with no file.
\<close>

theorem empty_output_counterexample:
  "phase (pool_map []) (files_task (example_library 0) REPO_PATH) set_files [new_Commit ''b2'']
     = Inr [(new_Commit ''b2'')\<lparr>files := [[]]\<rparr>]
   \<and> files ((new_Commit ''b2'')\<lparr>files := [[]]\<rparr>) \<noteq> []"
  by code_simp

text \<open>
  C9, amended.  A commit whose changed-files command prints nothing (or whitespace only) is
  stored with \<open>files\<close> equal to the one-element sequence of the empty path; the commit is
  kept by the phase, and a file-extension filter neither raises on it nor matches it.
\<close>

theorem empty_output_stored_as_one_empty_path:
  assumes "popen lib dir (split_ws (CMD_GET_COMMIT_FILES c)) = Inr p"
    and "stdout p = Utf8 s" and "strip s = []"
  shows "phase (pool_map picks) (files_task lib dir) set_files [c] = Inr [c\<lparr>files := [[]]\<rparr>]
       \<and> edited_specific_extension ext (c\<lparr>files := [[]]\<rparr>) = Inr False
       \<and> iterate_over [c\<lparr>files := [[]]\<rparr>] [edited_specific_extension ext] = Inr []"
proof -
  have t: "files_task lib dir c = Inr (PyList [Str []])"
    unfolding files_task_def using _ assms by (rule run_cmd_empty_output) (simp add: command_text_def)
  have "set_files (PyList (map Str [[]]), c) = Inr (c\<lparr>files := [[]]\<rparr>)"
    unfolding set_files_Inr by blast
  then have "map_e set_files (zip [PyList [Str []]] [c]) = Inr [c\<lparr>files := [[]]\<rparr>]"
    by simp
  moreover have "pool_map picks (files_task lib dir) [c] = Inr [PyList [Str []]]"
    by (simp add: pool_map_Inr_iff t)
  ultimately have "phase (pool_map picks) (files_task lib dir) set_files [c] = Inr [c\<lparr>files := [[]]\<rparr>]"
    by (simp add: phase_def)
  then show ?thesis
    by (simp add: no_extension_in_empty_path)
qed

theorem empty_output_stored_as_one_empty_path_witness:
  "popen (example_library 0) REPO_PATH (split_ws (CMD_GET_COMMIT_FILES (new_Commit ''b2'')))
     = Inr \<lparr>returncode = 0, stdout = Utf8 []\<rparr>
   \<and> strip [] = []
   \<and> phase (pool_map [0]) (files_task (example_library 0) REPO_PATH) set_files [new_Commit ''b2'']
       = Inr [(new_Commit ''b2'')\<lparr>files := [[]]\<rparr>]
   \<and> edited_specific_extension ''py'' ((new_Commit ''b2'')\<lparr>files := [[]]\<rparr>) = Inr False
   \<and> iterate_over [(new_Commit ''b2'')\<lparr>files := [[]]\<rparr>] [edited_specific_extension ''py''] = Inr []"
proof -
  have h1: "popen (example_library 0) REPO_PATH (split_ws (CMD_GET_COMMIT_FILES (new_Commit ''b2'')))
              = Inr \<lparr>returncode = 0, stdout = Utf8 []\<rparr>"
    by code_simp
  have h2: "stdout \<lparr>returncode = 0, stdout = Utf8 []\<rparr> = Utf8 []"
    by simp
  have h3: "strip [] = []"
    by (simp add: strip_def strip_chars_def)
  show ?thesis
    using empty_output_stored_as_one_empty_path [OF h1 h2 h3, of "[0]" "''py''"] h1 h3
    by simp
qed

section \<open>Failures of the process runner\<close>

lemma run_cmd_exiting_with:
  "run_cmd (exiting_with k lib) dir c args pl pw = run_cmd lib dir c args pl pw"
  by (simp add: run_cmd_def exiting_with_def split: sum.splits)

lemma run_cmd_undecodable:
  assumes "command_text c args = Inr text" "popen lib dir (split_ws text) = Inr p"
    "stdout p = Undecodable"
  shows "run_cmd lib dir c args pl pw = Inl UnicodeDecodeError"
  using assms by (simp add: run_cmd_def decode_def)

lemma build_Inl_artifact:
  assumes "artifact w = None" "get_or_create_commits lib picks False w = (Inl e, w')"
  shows "artifact w' = None"
proof -
  from assms obtain w2 where "ingest lib picks (w\<lparr>cwd := REPO_PATH\<rparr>) = (Inl e, w2)" "w' = w2"
    by (auto simp: get_or_create_commits_build split: prod.splits sum.splits)
  then show ?thesis
    using ingest_Inl_artifact [of lib picks "w\<lparr>cwd := REPO_PATH\<rparr>" e w2] assms(1) by simp
qed

lemma build_fields:
  assumes "artifact w = None" "get_or_create_commits lib picks False w = (Inr cs, w')"
  shows "\<exists>c0. enumerate_commits lib REPO_PATH = Inr c0 \<and>
           artifact w' = Some (pickle_dumps lib cs) \<and>
           list_all2 (\<lambda>c0 c.
             cid c = cid c0 \<and> files c \<noteq> [] \<and>
             files_task lib REPO_PATH c = Inr (PyList (map Str (files c))) \<and>
             (\<exists>a. author c = Some a \<and> author_task lib REPO_PATH c = Inr (Str a)) \<and>
             (\<exists>d. created c = Some d \<and> date_task lib REPO_PATH c = Inr (DateTime d)) \<and>
             (\<exists>ls. message c = Some (strip (join CHR 0x0A ls)) \<and>
                   message_task lib REPO_PATH c = Inr (PyList (map Str ls)))) c0 cs"
proof -
  obtain w2 where i: "ingest lib picks (w\<lparr>cwd := REPO_PATH\<rparr>) = (Inr cs, w2)"
    and w': "w' = w2\<lparr>cwd := cwd w\<rparr>"
    using assms by (rule build_Inr)
  from ingest_fields [OF i] obtain c0 where
    "enumerate_commits lib REPO_PATH = Inr c0"
    "w2 = dump_commits lib cs (spawn (1 + 4 * length c0) (w\<lparr>cwd := REPO_PATH\<rparr>))"
    "list_all2 (\<lambda>c0 c.
             cid c = cid c0 \<and> files c \<noteq> [] \<and>
             files_task lib REPO_PATH c = Inr (PyList (map Str (files c))) \<and>
             (\<exists>a. author c = Some a \<and> author_task lib REPO_PATH c = Inr (Str a)) \<and>
             (\<exists>d. created c = Some d \<and> date_task lib REPO_PATH c = Inr (DateTime d)) \<and>
             (\<exists>ls. message c = Some (strip (join CHR 0x0A ls)) \<and>
                   message_task lib REPO_PATH c = Inr (PyList (map Str ls)))) c0 cs"
    by auto
  moreover from this(2) have "artifact w' = Some (pickle_dumps lib cs)"
    by (simp add: w' dump_commits_def spawn_def)
  ultimately show ?thesis by blast
qed

lemma failed_task_fails_build:
  assumes "artifact w = None" "enumerate_commits lib REPO_PATH = Inr c0" "c \<in> set c0"
    and "isl (files_task lib REPO_PATH c) \<or> isl (author_task lib REPO_PATH c)
         \<or> isl (date_task lib REPO_PATH c) \<or> isl (message_task lib REPO_PATH c)"
  shows "isl (fst (get_or_create_commits lib picks False w))"
proof (rule ccontr)
  assume "\<not> isl (fst (get_or_create_commits lib picks False w))"
  then obtain cs where "fst (get_or_create_commits lib picks False w) = Inr cs"
    by (cases "fst (get_or_create_commits lib picks False w)") auto
  then obtain w' where g: "get_or_create_commits lib picks False w = (Inr cs, w')"
    by (cases "get_or_create_commits lib picks False w") auto
  let ?R = "\<lambda>c0 c. cid c = cid c0 \<and> files c \<noteq> [] \<and>
             files_task lib REPO_PATH c = Inr (PyList (map Str (files c))) \<and>
             (\<exists>a. author c = Some a \<and> author_task lib REPO_PATH c = Inr (Str a)) \<and>
             (\<exists>d. created c = Some d \<and> date_task lib REPO_PATH c = Inr (DateTime d)) \<and>
             (\<exists>ls. message c = Some (strip (join CHR 0x0A ls)) \<and>
                   message_task lib REPO_PATH c = Inr (PyList (map Str ls)))"
  from build_fields [OF assms(1) g] assms(2) have l: "list_all2 ?R c0 cs"
    by auto
  from assms(3) obtain n where n: "n < length c0" "c0 ! n = c"
    by (auto simp: in_set_conv_nth)
  have r: "?R c (cs ! n)"
    using list_all2_nthD [OF l n(1)] n(2) by simp
  then have k: "cid (cs ! n) = cid c"
    by simp
  have "\<not> isl (files_task lib REPO_PATH c)" "\<not> isl (author_task lib REPO_PATH c)"
    "\<not> isl (date_task lib REPO_PATH c)" "\<not> isl (message_task lib REPO_PATH c)"
    using r task_cid [OF k, of lib REPO_PATH] by auto
  with assms(4) show False by blast
qed

lemma failed_enumeration_fails_build:
  assumes "artifact w = None" "isl (enumerate_commits lib REPO_PATH)"
  shows "isl (fst (get_or_create_commits lib picks False w))"
  using assms
  by (auto simp: get_or_create_commits_build ingest_def isl_def split: prod.splits sum.splits)

text \<open>
  C3, as stated, fails: when every command of the example history exits with status 1, the
  enumeration still returns its two ids and no error.
\<close>

theorem nonzero_exit_counterexample:
  "popen (example_library 1) REPO_PATH (split_ws CMD_GET_ALL_COMMIT_IDS)
     = Inr \<lparr>returncode = 1, stdout = Utf8 ([dq] @ ''a1'' @ [dq, nl, dq] @ ''b2'' @ [dq, nl])\<rparr>
   \<and> run_cmd (example_library 1) REPO_PATH (Fixed CMD_GET_ALL_COMMIT_IDS) [] (LineFn chomp_quotes) None
       = Inr (PyList [Str ''a1'', Str ''b2''])"
  by code_simp

text \<open>
  C3, amended.  The process runner does not read the exit status: its result is the same
  whatever status the process exits with.  Output that cannot be decoded makes the call raise
  \<open>UnicodeDecodeError\<close>.  When the enumeration, or the call for any commit in any of the four
  phases, raises during a build, the build call raises and no artifact is written.
\<close>

theorem exit_status_unread_failure_aborts_build:
  "run_cmd (exiting_with k lib) dir c args pl pw = run_cmd lib dir c args pl pw
   \<and> (command_text c args = Inr cmdline \<and> popen lib dir (split_ws cmdline) = Inr p
        \<and> stdout p = Undecodable
      \<longrightarrow> run_cmd lib dir c args pl pw = Inl UnicodeDecodeError)
   \<and> (artifact w = None
        \<and> (isl (enumerate_commits lib REPO_PATH)
           \<or> (enumerate_commits lib REPO_PATH = Inr listed \<and> failing \<in> set listed
               \<and> (isl (files_task lib REPO_PATH failing) \<or> isl (author_task lib REPO_PATH failing)
                  \<or> isl (date_task lib REPO_PATH failing) \<or> isl (message_task lib REPO_PATH failing))))
      \<longrightarrow> isl (fst (get_or_create_commits lib picks False w))
          \<and> artifact (snd (get_or_create_commits lib picks False w)) = None)"
proof (intro conjI impI)
  show "run_cmd (exiting_with k lib) dir c args pl pw = run_cmd lib dir c args pl pw"
    by (rule run_cmd_exiting_with)
next
  assume "command_text c args = Inr cmdline \<and> popen lib dir (split_ws cmdline) = Inr p
            \<and> stdout p = Undecodable"
  then show "run_cmd lib dir c args pl pw = Inl UnicodeDecodeError"
    by (simp add: run_cmd_undecodable)
next
  assume a: "artifact w = None
        \<and> (isl (enumerate_commits lib REPO_PATH)
           \<or> (enumerate_commits lib REPO_PATH = Inr listed \<and> failing \<in> set listed
               \<and> (isl (files_task lib REPO_PATH failing) \<or> isl (author_task lib REPO_PATH failing)
                  \<or> isl (date_task lib REPO_PATH failing) \<or> isl (message_task lib REPO_PATH failing))))"
  then show f: "isl (fst (get_or_create_commits lib picks False w))"
    using failed_enumeration_fails_build [of w lib picks] failed_task_fails_build [of w lib listed failing picks]
    by blast
  then obtain e w' where "get_or_create_commits lib picks False w = (Inl e, w')"
    by (cases "get_or_create_commits lib picks False w") (auto simp: isl_def)
  then show "artifact (snd (get_or_create_commits lib picks False w)) = None"
    using a build_Inl_artifact [of w lib picks e w'] by simp
qed

theorem exit_status_unread_failure_aborts_build_witness:
  "command_text (Template CMD_GET_COMMIT_AUTHOR) [new_Commit ''b2'']
     = Inr (CMD_GET_COMMIT_AUTHOR (new_Commit ''b2''))
   \<and> popen garbled_library REPO_PATH (split_ws (CMD_GET_COMMIT_AUTHOR (new_Commit ''b2'')))
       = Inr \<lparr>returncode = 0, stdout = Undecodable\<rparr>
   \<and> artifact example_world = None
   \<and> enumerate_commits garbled_library REPO_PATH = Inr [new_Commit ''a1'', new_Commit ''b2'']
   \<and> isl (author_task garbled_library REPO_PATH (new_Commit ''b2''))
   \<and> run_cmd garbled_library REPO_PATH (Template CMD_GET_COMMIT_AUTHOR) [new_Commit ''b2'']
        (LineFn chomp_quotes) (Some first) = Inl UnicodeDecodeError
   \<and> isl (fst (get_or_create_commits garbled_library second_first False example_world))
   \<and> artifact (snd (get_or_create_commits garbled_library second_first False example_world)) = None"
proof -
  have h1: "command_text (Template CMD_GET_COMMIT_AUTHOR) [new_Commit ''b2'']
              = Inr (CMD_GET_COMMIT_AUTHOR (new_Commit ''b2''))"
    by (simp add: command_text_def)
  have h2: "popen garbled_library REPO_PATH (split_ws (CMD_GET_COMMIT_AUTHOR (new_Commit ''b2'')))
              = Inr \<lparr>returncode = 0, stdout = Undecodable\<rparr>"
    by code_simp
  have h3: "artifact example_world = None"
    by (simp add: example_world_def)
  have h4: "enumerate_commits garbled_library REPO_PATH = Inr [new_Commit ''a1'', new_Commit ''b2'']"
    by code_simp
  have h5: "isl (author_task garbled_library REPO_PATH (new_Commit ''b2''))"
    by code_simp
  show ?thesis
    using exit_status_unread_failure_aborts_build
      [where lib = garbled_library and dir = REPO_PATH and c = "Template CMD_GET_COMMIT_AUTHOR"
         and args = "[new_Commit ''b2'']" and cmdline = "CMD_GET_COMMIT_AUTHOR (new_Commit ''b2'')"
         and p = "\<lparr>returncode = 0, stdout = Undecodable\<rparr>"
         and pl = "LineFn chomp_quotes" and pw = "Some first"
         and w = example_world and listed = "[new_Commit ''a1'', new_Commit ''b2'']"
         and failing = "new_Commit ''b2''" and picks = second_first and k = 0]
      h1 h2 h3 h4 h5
    by simp
qed

section \<open>The store after a build\<close>




section \<open>The weekly mean of a store with matching commits\<close>

lemma get_authors_populated:
  assumes "\<forall>c \<in> set commits. author c \<noteq> None"
  shows "get_authors commits sub
           = Inr (filter (is_substring sub) (remdups (List.map_filter author commits)))"
  using assms by (auto simp: get_authors_def)

lemma whole_year_populated:
  assumes "created c \<noteq> None" "1 \<le> y" "y \<le> 9998"
  shows "whole_year y c = Inr (in_year y c)"
  using assms by (auto simp: whole_year_def in_year_def)

lemma only_authors_by_authors: "only_authors authors c = Inr (by_authors authors c)"
  by (cases "author c") (auto simp: only_authors_def by_authors_def list_ex_iff)

lemma iterate_over_filter:
  assumes "\<forall>c \<in> set cs. passes fns c = Inr (P c)"
  shows "iterate_over cs fns = Inr (filter P cs)"
  using assms by (induction cs) simp_all

lemma get_week_number_populated: "created c \<noteq> None \<Longrightarrow> get_week_number c = Inr (week_of c)"
  by (auto simp: get_week_number_def week_of_def)

lemma group_by_acc_total:
  assumes "\<forall>c \<in> set cs. f c = Inr (k c)"
  shows "group_by_acc f cs dd = Inr (foldl (\<lambda>dd c. add_to_group (k c) c dd) dd cs)"
  using assms by (induction cs arbitrary: dd) simp_all

lemma keys_add_to_group: "fst ` set (add_to_group k c dd) = insert k (fst ` set dd)"
proof (induction dd)
  case Nil
  then show ?case by simp
next
  case (Cons p dd)
  obtain k' g where p: "p = (k', g)" by (cases p)
  show ?case
    using Cons.IH by (cases "k = k'") (simp_all add: p insert_commute)
qed

lemma distinct_add_to_group:
  "distinct (map fst dd) \<Longrightarrow> distinct (map fst (add_to_group k c dd))"
proof (induction dd)
  case Nil
  then show ?case by simp
next
  case (Cons p dd)
  obtain k' g where p: "p = (k', g)" by (cases p)
  show ?case
  proof (cases "k = k'")
    case True
    with Cons.prems p show ?thesis by simp
  next
    case False
    have "k' \<notin> fst ` set (add_to_group k c dd)"
      using Cons.prems False p by (simp add: keys_add_to_group)
    with Cons p False show ?thesis by simp
  qed
qed

lemma size_add_to_group:
  "(\<Sum>p \<leftarrow> add_to_group k c dd. int (length (snd p))) = (\<Sum>p \<leftarrow> dd. int (length (snd p))) + 1"
  by (induction dd) auto

lemma grouped_invariants:
  fixes cs :: "'c list" and k :: "'c \<Rightarrow> 'k"
  defines "g \<equiv> foldl (\<lambda>dd c. add_to_group (k c) c dd) [] cs"
  shows "distinct (map fst g)" and "fst ` set g = k ` set cs"
    and "(\<Sum>p \<leftarrow> g. int (length (snd p))) = int (length cs)"
proof -
  have "distinct (map fst (foldl (\<lambda>dd c. add_to_group (k c) c dd) dd cs))
      \<and> fst ` set (foldl (\<lambda>dd c. add_to_group (k c) c dd) dd cs) = fst ` set dd \<union> k ` set cs
      \<and> (\<Sum>p \<leftarrow> foldl (\<lambda>dd c. add_to_group (k c) c dd) dd cs. int (length (snd p)))
          = (\<Sum>p \<leftarrow> dd. int (length (snd p))) + int (length cs)"
    if "distinct (map fst dd)" for dd :: "('k \<times> 'c list) list"
    using that
  proof (induction cs arbitrary: dd)
    case Nil
    then show ?case by simp
  next
    case (Cons c cs)
    have d: "distinct (map fst (add_to_group (k c) c dd))"
      using Cons.prems by (rule distinct_add_to_group)
    show ?case
      using Cons.IH [OF d] by (simp add: keys_add_to_group size_add_to_group)
  qed
  from this [of "[]"] show "distinct (map fst g)" and "fst ` set g = k ` set cs"
    and "(\<Sum>p \<leftarrow> g. int (length (snd p))) = int (length cs)"
    by (simp_all add: g_def)
qed

lemma counter_update_new:
  "k \<notin> fst ` set counter \<Longrightarrow> counter_update k n counter = counter @ [(k, n)]"
  by (induction counter) auto

lemma do_count_acc_distinct:
  assumes "distinct (map fst g)" "fst ` set g \<inter> fst ` set counter = {}"
  shows "do_count_acc (\<lambda>e. e) g counter = counter @ map (\<lambda>p. (fst p, int (length (snd p)))) g"
  using assms
proof (induction g arbitrary: counter)
  case Nil
  then show ?case by simp
next
  case (Cons p g)
  obtain k grp where p: "p = (k, grp)" by (cases p)
  have new: "k \<notin> fst ` set counter"
    using Cons.prems(2) p by auto
  have "fst ` set g \<inter> fst ` set (counter @ [(k, int (length grp))]) = {}"
    using Cons.prems p by auto
  then have "do_count_acc (\<lambda>e. e) g (counter @ [(k, int (length grp))])
               = (counter @ [(k, int (length grp))]) @ map (\<lambda>p. (fst p, int (length (snd p)))) g"
    using Cons.IH Cons.prems(1) by simp
  then show ?case
    by (simp add: p counter_update_new [OF new])
qed

lemma do_count_distinct:
  "distinct (map fst g) \<Longrightarrow> map snd (do_count (\<lambda>e. e) g) = map (\<lambda>p. int (length (snd p))) g"
  by (simp add: do_count_def do_count_acc_distinct comp_def)


lemma sum_list_indicator:
  "distinct ws \<Longrightarrow> (\<Sum>w \<leftarrow> ws. if a = w then 1 else 0) = (if a \<in> set ws then 1 else (0::int))"
  by (induction ws) auto

lemma sum_list_counts_by_key:
  assumes "distinct ws" "k ` set cs \<subseteq> set ws"
  shows "(\<Sum>w \<leftarrow> ws. int (length (filter (\<lambda>c. k c = w) cs))) = int (length cs)"
  using assms(2)
proof (induction cs)
  case Nil
  then show ?case by simp
next
  case (Cons c cs)
  have "(\<Sum>w \<leftarrow> ws. int (length (filter (\<lambda>c. k c = w) (c # cs))))
          = (\<Sum>w \<leftarrow> ws. (if k c = w then 1 else 0) + int (length (filter (\<lambda>c. k c = w) cs)))"
    by (rule arg_cong [where f = sum_list]) simp
  also have "\<dots> = (\<Sum>w \<leftarrow> ws. if k c = w then 1 else 0)
                    + (\<Sum>w \<leftarrow> ws. int (length (filter (\<lambda>c. k c = w) cs)))"
    by (rule sum_list_addf)
  also have "\<dots> = 1 + int (length cs)"
    using Cons assms(1) by (simp add: sum_list_indicator)
  finally show ?case by simp
qed

lemma weekly_counts_sum: "sum_list (weekly_counts cs) = int (length cs)"
  unfolding weekly_counts_def by (rule sum_list_counts_by_key) simp_all

lemma weekly_counts_length: "length (weekly_counts cs) = card (week_of ` set cs)"
  by (simp add: weekly_counts_def length_remdups_card_conv)

lemma code_weekly_counts:
  assumes "\<forall>c \<in> set cs. created c \<noteq> None"
  shows "\<exists>g. group_by get_week_number cs = Inr g
           \<and> sum_list (map snd (do_count (\<lambda>e. e) g)) = int (length cs)
           \<and> length (map snd (do_count (\<lambda>e. e) g)) = card (week_of ` set cs)"
proof -
  define g where "g = foldl (\<lambda>dd c. add_to_group (week_of c) c dd) [] cs"
  have grp: "group_by get_week_number cs = Inr g"
    unfolding group_by_def g_def
    by (rule group_by_acc_total) (use assms in \<open>simp add: get_week_number_populated\<close>)
  have d: "distinct (map fst g)" and k: "fst ` set g = week_of ` set cs"
    and n: "(\<Sum>p \<leftarrow> g. int (length (snd p))) = int (length cs)"
    unfolding g_def by (rule grouped_invariants)+
  have counts: "map snd (do_count (\<lambda>e. e) g) = map (\<lambda>p. int (length (snd p))) g"
    using d by (rule do_count_distinct)
  have "length g = card (fst ` set g)"
    using d by (metis distinct_card length_map set_map)
  moreover have "length (map snd (do_count (\<lambda>e. e) g)) = length g"
    unfolding counts by simp
  ultimately have w: "length (map snd (do_count (\<lambda>e. e) g)) = card (week_of ` set cs)"
    using k by simp
  have "sum_list (map snd (do_count (\<lambda>e. e) g)) = int (length cs)"
    unfolding counts using n by simp
  with grp w show ?thesis by blast
qed

text \<open>
  C6, as stated, fails: for two commits in one week and one in the next the mean of the
  weekly counts is 3/2, and the query yields 1.
\<close>

theorem weekly_mean_counterexample:
  "get_average_count_by_author_in_year uneven_commits ''alice'' 2024 = Inr 1
   \<and> weekly_mean_for_authors [''alice''] 2024 uneven_commits = Some (3 / 2)"
  by code_simp

text \<open>
  C6, amended.  On a store whose commits all have author and date, for a year from 1 to 9998
  and a non-empty set of matching commits, the query restricts to the commits of the authors
  found for the substring within \<open>[year-01-01, (year+1)-01-01)\<close>, groups them by ISO week
  number, counts per week, and yields the arithmetic mean of the weekly counts truncated to an
  integer.  On the fixture of ten commits (five of alice in week 1 of 2024, three in week 2)
  the result is 4.
\<close>

theorem weekly_mean_truncated:
  assumes "\<forall>c \<in> set commits. author c \<noteq> None \<and> created c \<noteq> None"
    and "1 \<le> y" and "y \<le> 9998"
    and "get_authors commits substring = Inr authors"
    and "filter (\<lambda>c. in_year y c \<and> by_authors authors c) commits \<noteq> []"
  shows "\<exists>m. weekly_mean_for_authors authors y commits = Some m
           \<and> get_average_count_by_author_in_year commits substring y = Inr (py_int m)"
proof -
  define cs where "cs = filter (\<lambda>c. in_year y c \<and> by_authors authors c) commits"
  have ne: "cs \<noteq> []"
    using assms(5) by (simp add: cs_def)
  have "\<forall>c \<in> set commits. passes [whole_year y, only_authors authors] c
          = Inr (in_year y c \<and> by_authors authors c)"
    using assms(1,2,3) by (simp add: whole_year_populated only_authors_by_authors)
  then have it: "iterate_over commits [whole_year y, only_authors authors] = Inr cs"
    unfolding cs_def by (rule iterate_over_filter)
  have "\<forall>c \<in> set cs. created c \<noteq> None"
    using assms(1) by (simp add: cs_def)
  then obtain g where grp: "group_by get_week_number cs = Inr g"
    and total: "sum_list (map snd (do_count (\<lambda>e. e) g)) = int (length cs)"
    and weeks: "length (map snd (do_count (\<lambda>e. e) g)) = card (week_of ` set cs)"
    using code_weekly_counts by blast
  have pos: "card (week_of ` set cs) \<noteq> 0"
    using ne by simp
  define m :: rat where "m = of_int (int (length cs)) / of_int (int (card (week_of ` set cs)))"
  have "map snd (do_count (\<lambda>e. e) g) \<noteq> []"
    using weeks pos by (metis list.size(3))
  then have "mean (map snd (do_count (\<lambda>e. e) g)) = Inr m"
    unfolding mean_def m_def using total weeks by simp
  then have code: "get_average_count_by_author_in_year commits substring y = Inr (py_int m)"
    by (simp add: get_average_count_by_author_in_year_def assms(4) it grp)
  have "weekly_counts cs \<noteq> []"
    using pos weekly_counts_length [of cs] by (metis list.size(3))
  then have "weekly_mean_for_authors authors y commits = Some m"
    by (simp add: weekly_mean_for_authors_def cs_def [symmetric] Let_def m_def
        weekly_counts_sum weekly_counts_length)
  with code show ?thesis by blast
qed

lemma fixture_authors: "get_authors fixture_commits ''alice'' = Inr [''alice'']"
  by code_simp

lemma fixture_mean: "weekly_mean_for_authors [''alice''] 2024 fixture_commits = Some 4"
  by code_simp

lemma fixture_matching:
  "filter (\<lambda>c. in_year 2024 c \<and> by_authors [''alice''] c) fixture_commits \<noteq> []"
  by code_simp

lemma fixture_populated: "\<forall>c \<in> set fixture_commits. author c \<noteq> None \<and> created c \<noteq> None"
  by (simp add: fixture_commits_def commit_on_def)

theorem weekly_mean_truncated_witness:
  "list_all (\<lambda>c. author c \<noteq> None \<and> created c \<noteq> None) fixture_commits
   \<and> (1::int) \<le> 2024 \<and> (2024::int) \<le> 9998
   \<and> get_authors fixture_commits ''alice'' = Inr [''alice'']
   \<and> filter (\<lambda>c. in_year 2024 c \<and> by_authors [''alice''] c) fixture_commits \<noteq> []
   \<and> weekly_mean_for_authors [''alice''] 2024 fixture_commits = Some 4
   \<and> get_average_count_by_author_in_year fixture_commits ''alice'' 2024 = Inr 4"
proof -
  have "py_int 4 = 4"
    by (simp add: py_int_def)
  then show ?thesis
    unfolding list_all_iff
    using weekly_mean_truncated [OF fixture_populated _ _ fixture_authors fixture_matching]
      fixture_populated fixture_authors fixture_matching fixture_mean
    by auto
qed

end
